theory Spec2Isabelle
  imports Main "HOL-Library.Sublist"
begin

section \<open>The janitor clean command of setupext (src/setupext/janitor.py)\<close>

text \<open>
  \<open>CleanCommand\<close> extends the clean command of distutils. Its three methods
  (\<open>initialize_options\<close>, \<open>finalize_options\<close>, \<open>run\<close>) are embedded below as
  functions over explicit state. Everything the methods obtain from outside the repository
  (the command registry of the distribution, the base clean command, the operating system)
  is a parameter of the model, so every theorem holds for each behaviour of these
  collaborators, or says which behaviour it assumes.
\<close>

subsection \<open>Exceptions, attribute values, strings\<close>

text \<open>
  The exceptions that can cross the code under study. \<open>DistutilsModuleError\<close> (raised by
  the registry for an unknown command) and \<open>DistutilsOptionError\<close> are subclasses of
  \<open>errors.DistutilsError\<close>, the only class that \<open>finalize_options\<close> catches.
\<close>

datatype error =
    DistutilsModuleError
  | DistutilsOptionError
  | AttributeError
  | TypeError
  | OSError

fun is_DistutilsError :: "error \<Rightarrow> bool" where
  "is_DistutilsError DistutilsModuleError = True"
| "is_DistutilsError DistutilsOptionError = True"
| "is_DistutilsError _ = False"

text \<open>
  An attribute of a command object as \<open>getattr\<close> sees it: not there at all, \<open>None\<close>, or a
  string (option values of distutils commands are strings).
\<close>

datatype attr = Missing | PyNone | PyStr string

text \<open>\<open>name.endswith(suf)\<close> and \<open>sub in s\<close> of Python's \<open>str\<close>.\<close>

definition endswith :: "string \<Rightarrow> string \<Rightarrow> bool" where
  "endswith s suf = suffix suf s"

definition str_contains :: "string \<Rightarrow> string \<Rightarrow> bool" where
  "str_contains s sub = sublist sub s"

text \<open>\<open>os.curdir\<close> and the two-argument \<open>os.path.join\<close> of \<open>posixpath\<close>.\<close>

definition os_curdir :: string where
  "os_curdir = ''.''"

definition os_path_join :: "string \<Rightarrow> string \<Rightarrow> string" where
  "os_path_join a b =
     (if prefix ''/'' b then b
      else if a = [] \<or> suffix ''/'' a then a @ b
      else a @ ''/'' @ b)"

text \<open>
  \<open>dir_names\<close> is a Python \<open>set\<close> of strings. It is kept as a list without repetitions in
  which \<open>set_add\<close> is \<open>set.add\<close>; the order in which Python iterates over the set is a
  parameter of the model (\<open>set_order\<close> below).
\<close>

definition set_add :: "string \<Rightarrow> string list \<Rightarrow> string list" where
  "set_add x xs = (if x \<in> set xs then xs else xs @ [x])"

subsection \<open>The command, its collaborators and the world\<close>

text \<open>The options of \<open>CleanCommand\<close>; \<open>dry_run\<close> is the inherited global switch.\<close>

record options =
  dist :: bool
  eggs :: bool
  egg_base :: "string option"
  environment :: bool
  virtualenv_dir :: "string option"
  dry_run :: bool

text \<open>
  Another command of the distribution, as far as this code looks at it: whether
  \<open>ensure_finalized()\<close> raises, and the attributes \<open>dist_dir\<close> and \<open>egg_base\<close> it has once
  finalized.
\<close>

record command =
  ensure_finalized :: "error option"
  cmd_dist_dir :: attr
  cmd_egg_base :: attr

text \<open>
  The distribution: \<open>get_command_list()\<close> gives (name, description) pairs,
  \<open>get_command_obj(name)\<close> a command object or an exception.
\<close>

record distribution =
  get_command_list :: "(string \<times> string) list"
  get_command_obj :: "string \<Rightarrow> error + command"

text \<open>
  The world a run acts on: a file system of some type \<open>'fs\<close> and the messages logged so
  far. A call either returns with a new world or raises an exception in the world reached
  by then.
\<close>

record 'fs world =
  fs :: 'fs
  log :: "string list"

type_synonym 'fs result = "(error \<times> 'fs world) + 'fs world"

definition world_of :: "'fs result \<Rightarrow> 'fs world" where
  "world_of r = (case r of Inl (e, w) \<Rightarrow> w | Inr w \<Rightarrow> w)"

text \<open>
  The operating system and the Python runtime. \<open>os_listdir\<close> is \<open>None\<close> where
  \<open>os.listdir\<close> raises \<open>OSError\<close>; \<open>delete_tree\<close> is the recursive deletion that
  \<open>dir_util.remove_tree\<close> performs when it is not a dry run, giving the file system it
  leaves and the exception it raises, if any; \<open>set_order\<close> is the order in which a
  \<open>for\<close> loop visits the elements of a set.
\<close>

record 'fs system =
  os_listdir :: "'fs \<Rightarrow> string \<Rightarrow> string list option"
  os_path_exists :: "'fs \<Rightarrow> string \<Rightarrow> bool"
  os_environ :: "string \<Rightarrow> string option"
  delete_tree :: "'fs \<Rightarrow> string \<Rightarrow> 'fs \<times> error option"
  set_order :: "string list \<Rightarrow> string list"

text \<open>
  The base class \<open>_CleanCommand\<close> (distutils' clean): whether its \<open>finalize_options\<close>
  raises, and what its \<open>run\<close> does to the world.
\<close>

record 'fs base_clean =
  base_finalize_options :: "error option"
  base_run :: "options \<Rightarrow> 'fs world \<Rightarrow> 'fs result"

subsection \<open>initialize_options and finalize_options\<close>

definition initialize_options :: "bool \<Rightarrow> options" where
  "initialize_options dry =
     \<lparr>dist = False, eggs = False, egg_base = None, environment = False,
      virtualenv_dir = None, dry_run = dry\<rparr>"

text \<open>
  Modelled from the spec: \<open>Command.set_undefined_options\<close> belongs to distutils and is
  not under src/. The call \<open>set_undefined_options('egg_info', ('egg_base', 'egg_base'))\<close>
  adopts the \<open>egg_base\<close> of the sibling egg-info command: it obtains that command from the
  registry, finalizes it, and copies its \<open>egg_base\<close> only if the own \<open>egg_base\<close> is still
  \<open>None\<close>. Reading an attribute that the sibling does not have raises \<open>AttributeError\<close>.
\<close>

definition set_undefined_options :: "distribution \<Rightarrow> options \<Rightarrow> error + options" where
  "set_undefined_options d c =
     (case get_command_obj d ''egg_info'' of
        Inl e \<Rightarrow> Inl e
      | Inr src_cmd \<Rightarrow>
          (case ensure_finalized src_cmd of
             Some e \<Rightarrow> Inl e
           | None \<Rightarrow>
               if egg_base c = None then
                 (case cmd_egg_base src_cmd of
                    Missing \<Rightarrow> Inl AttributeError
                  | PyNone \<Rightarrow> Inr c
                  | PyStr s \<Rightarrow> Inr (c\<lparr>egg_base := Some s\<rparr>))
               else Inr c))"

text \<open>
  Lines 47 to 59. The \<open>try\<close> statement passes over a \<open>DistutilsError\<close> of the lookup, with
  the options as they were, and lets every other exception out; then the two defaults
  are filled in.
\<close>

definition finalize_options ::
  "'fs base_clean \<Rightarrow> distribution \<Rightarrow> 'fs system \<Rightarrow> options \<Rightarrow> error + options" where
  "finalize_options b d sys c =
     (case base_finalize_options b of
        Some e \<Rightarrow> Inl e
      | None \<Rightarrow>
          (case (case set_undefined_options d c of
                   Inl e \<Rightarrow> if is_DistutilsError e then Inr c else Inl e
                 | Inr c1 \<Rightarrow> Inr c1) of
             Inl e \<Rightarrow> Inl e
           | Inr c1 \<Rightarrow>
               (let c2 = (if egg_base c1 = None then c1\<lparr>egg_base := Some os_curdir\<rparr> else c1);
                    c3 = (if environment c2 \<and> virtualenv_dir c2 = None
                          then c2\<lparr>virtualenv_dir := os_environ sys ''VIRTUAL_ENV''\<rparr>
                          else c2)
                in Inr c3)))"

subsection \<open>run\<close>

text \<open>Lines 65 to 71: the distribution directories of the commands named like \<open>dist\<close>.\<close>

fun dist_loop :: "distribution \<Rightarrow> (string \<times> string) list \<Rightarrow> string list \<Rightarrow> error + string list" where
  "dist_loop d [] dir_names = Inr dir_names"
| "dist_loop d ((cmd_name, descr) # rest) dir_names =
     (if str_contains cmd_name ''dist'' then
        (case get_command_obj d cmd_name of
           Inl e \<Rightarrow> Inl e
         | Inr command \<Rightarrow>
             (case ensure_finalized command of
                Some e \<Rightarrow> Inl e
              | None \<Rightarrow>
                  (case cmd_dist_dir command of
                     PyStr dd \<Rightarrow>
                       if dd \<noteq> [] then dist_loop d rest (set_add dd dir_names)
                       else dist_loop d rest dir_names
                   | _ \<Rightarrow> dist_loop d rest dir_names)))
      else dist_loop d rest dir_names)"

definition add_dist :: "distribution \<Rightarrow> options \<Rightarrow> string list \<Rightarrow> error + string list" where
  "add_dist d c dir_names =
     (if dist c then dist_loop d (get_command_list d) dir_names else Inr dir_names)"

text \<open>
  Lines 73 to 79. \<open>os.path.join(None, name)\<close> raises \<open>TypeError\<close>, and \<open>os.listdir(None)\<close>
  lists the current directory (Python 3); after \<open>finalize_options\<close>, \<open>egg_base\<close> is
  never \<open>None\<close>.
\<close>

fun egg_info_loop :: "string option \<Rightarrow> string list \<Rightarrow> string list \<Rightarrow> error + string list" where
  "egg_info_loop base [] dir_names = Inr dir_names"
| "egg_info_loop base (name # rest) dir_names =
     (if endswith name ''.egg-info'' then
        (case base of
           None \<Rightarrow> Inl TypeError
         | Some eb \<Rightarrow> egg_info_loop base rest (set_add (os_path_join eb name) dir_names))
      else egg_info_loop base rest dir_names)"

fun egg_loop :: "string list \<Rightarrow> string list \<Rightarrow> string list" where
  "egg_loop [] dir_names = dir_names"
| "egg_loop (name # rest) dir_names =
     (if endswith name ''.egg'' then egg_loop rest (set_add name dir_names)
      else egg_loop rest dir_names)"

definition add_eggs :: "'fs system \<Rightarrow> options \<Rightarrow> 'fs \<Rightarrow> string list \<Rightarrow> error + string list" where
  "add_eggs sys c f dir_names =
     (if eggs c then
        (case os_listdir sys f (case egg_base c of None \<Rightarrow> os_curdir | Some eb \<Rightarrow> eb) of
           None \<Rightarrow> Inl OSError
         | Some names \<Rightarrow>
             (case egg_info_loop (egg_base c) names dir_names of
                Inl e \<Rightarrow> Inl e
              | Inr dir_names1 \<Rightarrow>
                  (case os_listdir sys f os_curdir of
                     None \<Rightarrow> Inl OSError
                   | Some names2 \<Rightarrow> Inr (egg_loop names2 dir_names1))))
      else Inr dir_names)"

text \<open>Lines 81 and 82: a string is true in Python when it is not empty.\<close>

definition add_environment :: "options \<Rightarrow> string list \<Rightarrow> string list" where
  "add_environment c dir_names =
     (case virtualenv_dir c of
        Some v \<Rightarrow> if environment c \<and> v \<noteq> [] then set_add v dir_names else dir_names
      | None \<Rightarrow> dir_names)"

text \<open>Lines 64 to 82: the set of directories to remove, built before any removal.\<close>

definition build_dir_names ::
  "distribution \<Rightarrow> 'fs system \<Rightarrow> options \<Rightarrow> 'fs \<Rightarrow> error + string list" where
  "build_dir_names d sys c f =
     (case add_dist d c [] of
        Inl e \<Rightarrow> Inl e
      | Inr dir_names1 \<Rightarrow>
          (case add_eggs sys c f dir_names1 of
             Inl e \<Rightarrow> Inl e
           | Inr dir_names2 \<Rightarrow> Inr (add_environment c dir_names2)))"

text \<open>The two messages of the removal loop.\<close>

definition removing_msg :: "string \<Rightarrow> string" where
  "removing_msg directory = ''removing '' @ [CHR 0x27] @ directory @ [CHR 0x27] @ '' (and everything under it)''"

definition skipping_msg :: "string \<Rightarrow> string" where
  "skipping_msg dir_name = ''skipping '' @ dir_name @ '' since it does not exist''"

definition announce :: "string \<Rightarrow> 'fs world \<Rightarrow> 'fs world" where
  "announce msg w = w\<lparr>log := log w @ [msg]\<rparr>"

text \<open>
  Modelled from the spec: \<open>dir_util.remove_tree(directory, dry_run)\<close> belongs to distutils
  and is not under src/. It logs that it removes the directory and then, unless it is a
  dry run, deletes the tree; in a dry run the file system is not touched. The deletion
  itself is the parameter \<open>delete_tree\<close>.
\<close>

definition remove_tree :: "'fs system \<Rightarrow> string \<Rightarrow> bool \<Rightarrow> 'fs world \<Rightarrow> 'fs result" where
  "remove_tree sys directory dry w =
     (let w1 = announce (removing_msg directory) w in
      if dry then Inr w1
      else (case delete_tree sys (fs w1) directory of
              (f', None) \<Rightarrow> Inr (w1\<lparr>fs := f'\<rparr>)
            | (f', Some e) \<Rightarrow> Inl (e, w1\<lparr>fs := f'\<rparr>)))"

text \<open>Lines 84 to 89: the removal loop.\<close>

fun remove_dirs :: "'fs system \<Rightarrow> options \<Rightarrow> string list \<Rightarrow> 'fs world \<Rightarrow> 'fs result" where
  "remove_dirs sys c [] w = Inr w"
| "remove_dirs sys c (dir_name # rest) w =
     (if os_path_exists sys (fs w) dir_name then
        (case remove_tree sys dir_name (dry_run c) w of
           Inl ew \<Rightarrow> Inl ew
         | Inr w' \<Rightarrow> remove_dirs sys c rest w')
      else remove_dirs sys c rest (announce (skipping_msg dir_name) w))"

definition run ::
  "'fs base_clean \<Rightarrow> distribution \<Rightarrow> 'fs system \<Rightarrow> options \<Rightarrow> 'fs world \<Rightarrow> 'fs result" where
  "run b d sys c w =
     (case base_run b c w of
        Inl ew \<Rightarrow> Inl ew
      | Inr w1 \<Rightarrow>
          (case build_dir_names d sys c (fs w1) of
             Inl e \<Rightarrow> Inl (e, w1)
           | Inr dir_names \<Rightarrow> remove_dirs sys c (set_order sys dir_names) w1))"

text \<open>
  What is assumed of the order in which Python visits a set: every element once.
\<close>

definition iteration_order :: "(string list \<Rightarrow> string list) \<Rightarrow> bool" where
  "iteration_order f = (\<forall>xs. distinct xs \<longrightarrow> distinct (f xs) \<and> set (f xs) = set xs)"

subsection \<open>Notions for the properties of the removal loop\<close>

text \<open>
  The message that the loop logs for a directory, given the file system it looks at.
\<close>

definition report :: "'fs system \<Rightarrow> 'fs \<Rightarrow> string \<Rightarrow> string" where
  "report sys f p = (if os_path_exists sys f p then removing_msg p else skipping_msg p)"

text \<open>
  A removal loop that is not a dry run is undisturbed on a list of directories when each
  directory is still there at its turn and each deletion returns normally: no deletion
  fails, and none takes a later directory away.
\<close>

fun undisturbed :: "'fs system \<Rightarrow> string list \<Rightarrow> 'fs \<Rightarrow> bool" where
  "undisturbed sys [] f = True"
| "undisturbed sys (p # ps) f =
     (os_path_exists sys f p \<and>
      (case delete_tree sys f p of
         (f', None) \<Rightarrow> undisturbed sys ps f'
       | (f', Some e) \<Rightarrow> False))"

text \<open>
  A deletion that returns normally has removed the directory, and deleting never makes
  a path appear.
\<close>

definition sound_delete :: "'fs system \<Rightarrow> bool" where
  "sound_delete sys =
     (\<forall>f p f'. delete_tree sys f p = (f', None) \<longrightarrow>
        \<not> os_path_exists sys f' p \<and>
        (\<forall>q. \<not> os_path_exists sys f q \<longrightarrow> \<not> os_path_exists sys f' q))"

subsection \<open>The specification's description of the scheduled directories\<close>

text \<open>
  The directories that the specification says \<open>--dist\<close> schedules: the \<open>dist_dir\<close> of every
  registered command whose name contains \<open>dist\<close> and whose command object has a non-empty
  \<open>dist_dir\<close>. This set follows the specification's words; \<open>add_dist\<close> above follows the
  code, and the two are compared below.
\<close>

definition spec_dist_dirs :: "distribution \<Rightarrow> string set" where
  "spec_dist_dirs d =
     {dd. \<exists>cmd_name descr command. (cmd_name, descr) \<in> set (get_command_list d) \<and>
        str_contains cmd_name ''dist'' \<and> get_command_obj d cmd_name = Inr command \<and>
        cmd_dist_dir command = PyStr dd \<and> dd \<noteq> []}"

text \<open>
  The directories that the specification says \<open>--eggs\<close> schedules: the entries of
  \<open>egg_base\<close> whose name ends with \<open>.egg-info\<close>, joined with \<open>egg_base\<close>, and the entries
  of the current directory whose name ends with \<open>.egg\<close>; and the one that it says
  \<open>--environment\<close> schedules: a non-empty \<open>virtualenv_dir\<close>.
\<close>

definition spec_egg_dirs :: "'fs system \<Rightarrow> options \<Rightarrow> 'fs \<Rightarrow> string set" where
  "spec_egg_dirs sys c f =
     {os_path_join eb name | eb names name.
        egg_base c = Some eb \<and> os_listdir sys f eb = Some names \<and>
        name \<in> set names \<and> endswith name ''.egg-info''}
     \<union> {name. \<exists>names2. os_listdir sys f os_curdir = Some names2 \<and>
            name \<in> set names2 \<and> endswith name ''.egg''}"

definition spec_environment_dirs :: "options \<Rightarrow> string set" where
  "spec_environment_dirs c = {v. virtualenv_dir c = Some v \<and> v \<noteq> []}"

text \<open>What the three sources contribute under the flags of a run.\<close>

definition contributed :: "distribution \<Rightarrow> 'fs system \<Rightarrow> options \<Rightarrow> 'fs \<Rightarrow> string set" where
  "contributed d sys c f =
     (if dist c then spec_dist_dirs d else {})
     \<union> (if eggs c then spec_egg_dirs sys c f else {})
     \<union> (if environment c then spec_environment_dirs c else {})"

subsection \<open>A small concrete system\<close>

text \<open>
  An instance of the parameters, for evaluating the model on concrete inputs. The file
  system is a table of the paths that exist: a directory with its entries, or a regular
  file (\<open>None\<close>). Listing something that is not a directory raises \<open>OSError\<close>, and so does
  deleting it as a tree; deleting a directory removes it and every path below it. Sets
  are visited in insertion order.
\<close>

type_synonym table_fs = "(string \<times> string list option) list"

definition table_listdir :: "table_fs \<Rightarrow> string \<Rightarrow> string list option" where
  "table_listdir f p = (case map_of f p of Some (Some names) \<Rightarrow> Some names | _ \<Rightarrow> None)"

definition table_exists :: "table_fs \<Rightarrow> string \<Rightarrow> bool" where
  "table_exists f p = (map_of f p \<noteq> None)"

definition table_delete :: "table_fs \<Rightarrow> string \<Rightarrow> table_fs \<times> error option" where
  "table_delete f p =
     (case map_of f p of
        Some (Some names) \<Rightarrow> (filter (\<lambda>(q, n). q \<noteq> p \<and> \<not> prefix (p @ ''/'') q) f, None)
      | _ \<Rightarrow> (f, Some OSError))"

definition table_system :: "(string \<Rightarrow> string option) \<Rightarrow> table_fs system" where
  "table_system env =
     \<lparr>os_listdir = table_listdir, os_path_exists = table_exists, os_environ = env,
      delete_tree = table_delete, set_order = (\<lambda>xs. xs)\<rparr>"

text \<open>A base clean command that does nothing, and registries of commands.\<close>

definition idle_base :: "table_fs base_clean" where
  "idle_base = \<lparr>base_finalize_options = None, base_run = (\<lambda>c w. Inr w)\<rparr>"

definition registry :: "(string \<times> command) list \<Rightarrow> distribution" where
  "registry cmds =
     \<lparr>get_command_list = map (\<lambda>(n, k). (n, ''(no description available)'')) cmds,
      get_command_obj = (\<lambda>n. case map_of cmds n of
                                None \<Rightarrow> Inl DistutilsModuleError
                              | Some k \<Rightarrow> Inr k)\<rparr>"

definition plain_command :: "attr \<Rightarrow> attr \<Rightarrow> command" where
  "plain_command dd eb = \<lparr>ensure_finalized = None, cmd_dist_dir = dd, cmd_egg_base = eb\<rparr>"

text \<open>
  An example project: the current directory holds the egg directory \<open>baz.egg\<close>, and the
  package directory \<open>pkg\<close> holds \<open>foo.egg-info\<close> and the file \<open>bar.txt\<close>; \<open>build/out\<close> is
  the output directory of a distribution command and \<open>/tmp/venv\<close> the virtual environment.
\<close>

definition project_fs :: table_fs where
  "project_fs =
     [(''.'', Some [''baz.egg'', ''build'', ''pkg'', ''setup.py'']),
      (''baz.egg'', Some []),
      (''setup.py'', None),
      (''build'', Some [''out'']),
      (''build/out'', Some [''pkg-1.0.tar.gz'']),
      (''build/out/pkg-1.0.tar.gz'', None),
      (''pkg'', Some [''foo.egg-info'', ''bar.txt'']),
      (''pkg/foo.egg-info'', Some []),
      (''pkg/bar.txt'', None),
      (''/tmp/venv'', Some [])]"

definition project_registry :: distribution where
  "project_registry =
     registry [(''build'', plain_command Missing Missing),
               (''sdist'', plain_command (PyStr ''build/out'') Missing),
               (''bdist'', plain_command (PyStr ''build/out'') Missing),
               (''bdist_dumb'', plain_command (PyStr []) Missing),
               (''bdist_rpm'', plain_command PyNone Missing),
               (''dist_info'', plain_command Missing Missing),
               (''egg_info'', plain_command Missing (PyStr ''pkg''))]"

definition project_environ :: "string \<Rightarrow> string option" where
  "project_environ = [''VIRTUAL_ENV'' \<mapsto> ''/tmp/venv'']"

text \<open>Options as the command line leaves them, before \<open>finalize_options\<close>.\<close>

definition eggs_options :: options where
  "eggs_options = (initialize_options False)\<lparr>eggs := True, egg_base := Some ''pkg''\<rparr>"

definition dist_options :: options where
  "dist_options = (initialize_options False)\<lparr>dist := True\<rparr>"

definition venv_options :: options where
  "venv_options = (initialize_options False)\<lparr>environment := True\<rparr>"

definition venv_finalized :: options where
  "venv_finalized =
     \<lparr>dist = False, eggs = False, egg_base = Some ''pkg'', environment = True,
      virtualenv_dir = Some ''/tmp/venv'', dry_run = False\<rparr>"

definition src_options :: options where
  "src_options = (initialize_options False)\<lparr>eggs := True, egg_base := Some ''src''\<rparr>"

text \<open>A registry whose egg-info command has no \<open>egg_base\<close> attribute.\<close>

definition bare_registry :: distribution where
  "bare_registry = registry [(''egg_info'', plain_command Missing Missing)]"

text \<open>A registry whose egg-info command fails to finalize with an \<open>OSError\<close>.\<close>

definition broken_registry :: distribution where
  "broken_registry =
     registry [(''egg_info'',
        \<lparr>ensure_finalized = Some OSError, cmd_dist_dir = Missing, cmd_egg_base = PyStr ''pkg''\<rparr>)]"

text \<open>All three flags at once, as a dry run.\<close>

definition all_options :: options where
  "all_options = \<lparr>dist = True, eggs = True, egg_base = Some ''pkg'', environment = True,
      virtualenv_dir = Some ''/tmp/venv'', dry_run = True\<rparr>"

definition project_targets :: "string list" where
  "project_targets = [''build/out'', ''pkg/foo.egg-info'', ''baz.egg'', ''/tmp/venv'']"

definition project_world :: "table_fs world" where
  "project_world = \<lparr>fs = project_fs, log = []\<rparr>"

text \<open>
  A project whose two distribution commands write to nested directories.
\<close>

definition nested_registry :: distribution where
  "nested_registry =
     registry [(''sdist'', plain_command (PyStr ''dist'') Missing),
               (''bdist_wheel'', plain_command (PyStr ''dist/wheels'') Missing)]"

definition nested_fs :: table_fs where
  "nested_fs = [(''.'', Some [''dist'', ''setup.py'']), (''setup.py'', None),
                (''dist'', Some [''wheels'']), (''dist/wheels'', Some [])]"

text \<open>
  A run whose virtual environment \<open>/tmp/gone\<close> does not exist, and the world it leaves.
\<close>

definition gone_options :: options where
  "gone_options = \<lparr>dist = True, eggs = True, egg_base = Some ''pkg'', environment = True,
      virtualenv_dir = Some ''/tmp/gone'', dry_run = False\<rparr>"

definition gone_targets :: "string list" where
  "gone_targets = [''build/out'', ''/tmp/gone'', ''baz.egg'']"

definition gone_world :: "table_fs world" where
  "gone_world =
     \<lparr>fs = [(''.'', Some [''baz.egg'', ''build'', ''pkg'', ''setup.py'']),
            (''setup.py'', None),
            (''build'', Some [''out'']),
            (''pkg'', Some [''foo.egg-info'', ''bar.txt'']),
            (''pkg/foo.egg-info'', Some []),
            (''pkg/bar.txt'', None),
            (''/tmp/venv'', Some [])],
      log = [removing_msg ''build/out'', skipping_msg ''/tmp/gone'', removing_msg ''baz.egg'']\<rparr>"

text \<open>
  A run in which \<open>build/out\<close> is the output directory of two commands and the virtual
  environment as well.
\<close>

definition dup_options :: options where
  "dup_options = \<lparr>dist = True, eggs = True, egg_base = Some ''pkg'', environment = True,
      virtualenv_dir = Some ''build/out'', dry_run = False\<rparr>"

definition dup_targets :: "string list" where
  "dup_targets = [''build/out'', ''pkg/foo.egg-info'', ''baz.egg'']"

text \<open>The world that run leaves.\<close>

definition dup_world :: "table_fs world" where
  "dup_world =
     \<lparr>fs = [(''.'', Some [''baz.egg'', ''build'', ''pkg'', ''setup.py'']),
            (''setup.py'', None),
            (''build'', Some [''out'']),
            (''pkg'', Some [''foo.egg-info'', ''bar.txt'']),
            (''pkg/bar.txt'', None),
            (''/tmp/venv'', Some [])],
      log = [removing_msg ''build/out'', removing_msg ''pkg/foo.egg-info'',
             removing_msg ''baz.egg'']\<rparr>"

section \<open>Properties\<close>

subsection \<open>Sets as lists without repetition\<close>

lemma set_set_add: "set (set_add x xs) = insert x (set xs)"
  by (auto simp: set_add_def)

lemma distinct_set_add: "distinct xs \<Longrightarrow> distinct (set_add x xs)"
  by (simp add: set_add_def)

lemma iteration_order_Nil: "iteration_order f \<Longrightarrow> f [] = []"
  by (simp add: iteration_order_def) (metis distinct.simps(1) set_empty)

subsection \<open>The example project, evaluated\<close>

lemma project_command_list:
  "get_command_list project_registry =
     map (\<lambda>n. (n, ''(no description available)''))
       [''build'', ''sdist'', ''bdist'', ''bdist_dumb'', ''bdist_rpm'', ''dist_info'', ''egg_info'']"
  by (simp add: project_registry_def registry_def)

lemma project_command_objs:
  "get_command_obj project_registry ''build'' = Inr (plain_command Missing Missing)"
  "get_command_obj project_registry ''sdist'' = Inr (plain_command (PyStr ''build/out'') Missing)"
  "get_command_obj project_registry ''bdist'' = Inr (plain_command (PyStr ''build/out'') Missing)"
  "get_command_obj project_registry ''bdist_dumb'' = Inr (plain_command (PyStr []) Missing)"
  "get_command_obj project_registry ''bdist_rpm'' = Inr (plain_command PyNone Missing)"
  "get_command_obj project_registry ''dist_info'' = Inr (plain_command Missing Missing)"
  "get_command_obj project_registry ''egg_info'' = Inr (plain_command Missing (PyStr ''pkg''))"
  by (simp_all add: project_registry_def registry_def)

lemma project_dist_named:
  "\<not> str_contains ''build'' ''dist''" "str_contains ''sdist'' ''dist''"
  "str_contains ''bdist'' ''dist''" "str_contains ''bdist_dumb'' ''dist''"
  "str_contains ''bdist_rpm'' ''dist''" "str_contains ''dist_info'' ''dist''"
  "\<not> str_contains ''egg_info'' ''dist''"
  by (simp_all add: str_contains_def sublist_code)


lemma project_add_dist: "add_dist project_registry dist_options [] = Inr [''build/out'']"
  by (simp add: add_dist_def dist_options_def initialize_options_def project_command_list
        project_command_objs project_dist_named plain_command_def set_add_def)

lemma idle_base_finalize: "base_finalize_options idle_base = None"
  by (simp add: idle_base_def)

lemma idle_base_run: "base_run idle_base c w = Inr w"
  by (simp add: idle_base_def)

lemma table_set_order: "set_order (table_system env) xs = xs"
  by (simp add: table_system_def)

lemma table_iteration_order: "iteration_order (set_order (table_system env))"
  by (simp add: iteration_order_def table_system_def)

lemma map_of_filter_key:
  "map_of (filter (\<lambda>(k, v). P k) xs) k = (if P k then map_of xs k else None)"
  by (induction xs) auto

lemma table_sound_delete: "sound_delete (table_system env)"
proof -
  have "\<not> table_exists f' p \<and> (\<forall>q. \<not> table_exists f q \<longrightarrow> \<not> table_exists f' q)"
    if "table_delete f p = (f', None)" for f p f'
  proof -
    from that have "f' = filter (\<lambda>(q, n). q \<noteq> p \<and> \<not> prefix (p @ ''/'') q) f"
      by (auto simp: table_delete_def split: option.splits)
    then show ?thesis
      by (simp add: table_exists_def map_of_filter_key)
  qed
  then show ?thesis
    by (simp add: sound_delete_def table_system_def)
qed

lemma project_all_targets:
  "build_dir_names project_registry (table_system project_environ) all_options
     (fs project_world) = Inr project_targets"
  by code_simp

lemma project_all_exist:
  "map (report (table_system project_environ) (fs project_world)) project_targets
     = map removing_msg project_targets"
  by code_simp

lemma project_undisturbed:
  "undisturbed (table_system project_environ) project_targets (fs project_world)"
  by code_simp

lemma gone_run:
  "remove_dirs (table_system project_environ) gone_options gone_targets project_world
     = Inr gone_world"
  by code_simp

lemma dup_build:
  "build_dir_names project_registry (table_system project_environ) dup_options project_fs
     = Inr dup_targets"
  by code_simp

lemma project_all_targets_real:
  "build_dir_names project_registry (table_system project_environ)
     (all_options\<lparr>dry_run := False\<rparr>) (fs project_world) = Inr project_targets"
  by code_simp

lemma dup_run:
  "remove_dirs (table_system project_environ) dup_options dup_targets project_world
     = Inr dup_world"
  by code_simp

subsection \<open>Building the set of directories\<close>

lemma dist_loop_set:
  "dist_loop d cl dn = Inr dn' \<Longrightarrow>
   set dn' = set dn \<union>
     {dd. \<exists>cmd_name descr command. (cmd_name, descr) \<in> set cl \<and> str_contains cmd_name ''dist'' \<and>
        get_command_obj d cmd_name = Inr command \<and> cmd_dist_dir command = PyStr dd \<and> dd \<noteq> []}"
proof (induction d cl dn rule: dist_loop.induct)
  case (1 d dir_names)
  then show ?case by simp
next
  case (2 d cmd_name descr rest dir_names)
  show ?case
  proof (cases "str_contains cmd_name ''dist''")
    case False
    with 2 show ?thesis by auto
  next
    case True
    from True "2.prems" obtain command where
      obj: "get_command_obj d cmd_name = Inr command" and fin: "ensure_finalized command = None"
      by (auto split: sum.splits option.splits)
    show ?thesis
    proof (cases "cmd_dist_dir command")
      case (PyStr dd)
      show ?thesis
      proof (cases "dd = []")
        case True
        with 2 \<open>str_contains cmd_name ''dist''\<close> obj fin PyStr show ?thesis by auto
      next
        case False
        with 2 \<open>str_contains cmd_name ''dist''\<close> obj fin PyStr show ?thesis
          by (auto simp: set_set_add)
      qed
    next
      case Missing
      with 2 True obj fin show ?thesis by auto
    next
      case PyNone
      with 2 True obj fin show ?thesis by auto
    qed
  qed
qed

lemma dist_loop_distinct:
  "dist_loop d cl dn = Inr dn' \<Longrightarrow> distinct dn \<Longrightarrow> distinct dn'"
  by (induction d cl dn rule: dist_loop.induct)
     (auto simp: distinct_set_add split: if_splits sum.splits option.splits attr.splits)

lemma dist_loop_returns:
  "\<forall>(cmd_name, descr) \<in> set cl. str_contains cmd_name ''dist'' \<longrightarrow>
      (\<exists>command. get_command_obj d cmd_name = Inr command \<and> ensure_finalized command = None)
   \<Longrightarrow> \<exists>dn'. dist_loop d cl dn = Inr dn'"
  by (induction d cl dn rule: dist_loop.induct)
     (auto split: if_splits sum.splits option.splits attr.splits)

lemma egg_info_loop_set:
  "egg_info_loop (Some eb) names dn = Inr dn' \<Longrightarrow>
     set dn' = set dn \<union> {os_path_join eb name | name. name \<in> set names \<and> endswith name ''.egg-info''}"
  by (induction names arbitrary: dn) (auto simp: set_set_add split: if_splits)

lemma egg_info_loop_returns: "\<exists>dn'. egg_info_loop (Some eb) names dn = Inr dn'"
  by (induction names arbitrary: dn) auto

lemma egg_info_loop_distinct:
  "egg_info_loop base names dn = Inr dn' \<Longrightarrow> distinct dn \<Longrightarrow> distinct dn'"
  by (induction names arbitrary: dn) (auto simp: distinct_set_add split: if_splits option.splits)

lemma egg_loop_set:
  "set (egg_loop names dn) = set dn \<union> {name \<in> set names. endswith name ''.egg''}"
  by (induction names arbitrary: dn) (auto simp: set_set_add)

lemma egg_loop_distinct: "distinct dn \<Longrightarrow> distinct (egg_loop names dn)"
  by (induction names arbitrary: dn) (auto simp: distinct_set_add)

lemma add_environment_distinct: "distinct dn \<Longrightarrow> distinct (add_environment c dn)"
  by (auto simp: add_environment_def distinct_set_add split: option.splits)

lemma add_dist_distinct: "add_dist d c dn = Inr dn' \<Longrightarrow> distinct dn \<Longrightarrow> distinct dn'"
  by (auto simp: add_dist_def dist_loop_distinct split: if_splits)

lemma add_eggs_distinct: "add_eggs sys c f dn = Inr dn' \<Longrightarrow> distinct dn \<Longrightarrow> distinct dn'"
  by (auto simp: add_eggs_def egg_loop_distinct egg_info_loop_distinct split: if_splits option.splits sum.splits)

lemma build_dir_names_distinct: "build_dir_names d sys c f = Inr dn \<Longrightarrow> distinct dn"
  by (auto simp: build_dir_names_def split: sum.splits
        intro!: add_environment_distinct dest!: add_dist_distinct add_eggs_distinct)

lemma egg_info_loop_mono: "egg_info_loop base names dn = Inr dn' \<Longrightarrow> set dn \<subseteq> set dn'"
proof (induction names arbitrary: dn)
  case Nil
  then show ?case by simp
next
  case (Cons name names)
  show ?case
  proof (cases "endswith name ''.egg-info''")
    case False
    with Cons show ?thesis by simp
  next
    case True
    with Cons.prems obtain eb where eb: "base = Some eb"
      and r: "egg_info_loop base names (set_add (os_path_join eb name) dn) = Inr dn'"
      by (auto split: option.splits)
    from Cons.IH [OF r] show ?thesis by (auto simp: set_set_add)
  qed
qed

lemma add_eggs_mono:
  assumes "add_eggs sys c f dn = Inr dn'"
  shows "set dn \<subseteq> set dn'"
proof (cases "eggs c")
  case False
  with assms show ?thesis by (simp add: add_eggs_def)
next
  case True
  with assms obtain names dn1 names2 where
    "egg_info_loop (egg_base c) names dn = Inr dn1" and "dn' = egg_loop names2 dn1"
    by (auto simp: add_eggs_def split: option.splits sum.splits)
  then show ?thesis
    using egg_info_loop_mono [of "egg_base c" names dn dn1] by (auto simp: egg_loop_set)
qed

lemma add_environment_mono: "set dn \<subseteq> set (add_environment c dn)"
  by (auto simp: add_environment_def set_set_add split: option.splits)

lemma add_dist_mono: "add_dist d c dn = Inr dn' \<Longrightarrow> set dn \<subseteq> set dn'"
  by (auto simp: add_dist_def split: if_splits dest: dist_loop_set)

lemma add_dist_set:
  "add_dist d c dn = Inr dn' \<Longrightarrow>
   set dn' = set dn \<union> (if dist c then spec_dist_dirs d else {})"
  by (auto simp: add_dist_def spec_dist_dirs_def split: if_splits dest!: dist_loop_set)

lemma egg_info_loop_None:
  "egg_info_loop None names dn = Inr dn' \<Longrightarrow> dn' = dn"
  by (induction names arbitrary: dn) (auto split: if_splits)

lemma add_eggs_set:
  assumes "add_eggs sys c f dn = Inr dn'"
  shows "set dn' = set dn \<union> (if eggs c then spec_egg_dirs sys c f else {})"
proof (cases "eggs c")
  case False
  with assms show ?thesis by (simp add: add_eggs_def)
next
  case True
  with assms obtain names dn1 names2 where
    l1: "os_listdir sys f (case egg_base c of None \<Rightarrow> os_curdir | Some eb \<Rightarrow> eb) = Some names"
    and e: "egg_info_loop (egg_base c) names dn = Inr dn1"
    and l2: "os_listdir sys f os_curdir = Some names2"
    and dn': "dn' = egg_loop names2 dn1"
    by (auto simp: add_eggs_def split: option.splits sum.splits)
  have "set dn1 = set dn \<union> {os_path_join eb name | eb names name.
        egg_base c = Some eb \<and> os_listdir sys f eb = Some names \<and>
        name \<in> set names \<and> endswith name ''.egg-info''}"
  proof (cases "egg_base c")
    case None
    with e have "dn1 = dn" by (simp add: egg_info_loop_None)
    with None show ?thesis by simp
  next
    case (Some eb)
    with e have "set dn1 = set dn \<union>
        {os_path_join eb name | name. name \<in> set names \<and> endswith name ''.egg-info''}"
      by (simp add: egg_info_loop_set)
    with Some l1 show ?thesis by auto
  qed
  moreover from l2 have "{name. \<exists>names2. os_listdir sys f os_curdir = Some names2 \<and>
            name \<in> set names2 \<and> endswith name ''.egg''} = {name \<in> set names2. endswith name ''.egg''}"
    by auto
  ultimately show ?thesis
    using True dn' by (simp add: egg_loop_set spec_egg_dirs_def Un_assoc)
qed

lemma add_environment_set:
  "set (add_environment c dn)
     = set dn \<union> (if environment c then spec_environment_dirs c else {})"
  by (auto simp: add_environment_def spec_environment_dirs_def set_set_add split: option.splits)

lemma build_dir_names_set:
  assumes "build_dir_names d sys c f = Inr dn"
  shows "set dn = contributed d sys c f"
proof -
  from assms obtain dn1 dn2 where 1: "add_dist d c [] = Inr dn1"
    and 2: "add_eggs sys c f dn1 = Inr dn2" and 3: "dn = add_environment c dn2"
    by (auto simp: build_dir_names_def split: sum.splits)
  from add_dist_set [OF 1] add_eggs_set [OF 2] 3 show ?thesis
    unfolding contributed_def by (simp add: add_environment_set)
qed

lemma project_spec_dist_dirs: "spec_dist_dirs project_registry = {''build/out''}"
proof -
  have "dist dist_options"
    by (simp add: dist_options_def initialize_options_def)
  with add_dist_set [OF project_add_dist] show ?thesis by simp
qed

subsection \<open>No flag, no removal\<close>

text \<open>
  C1. When \<open>dist\<close>, \<open>eggs\<close> and \<open>environment\<close> are all false, the set of directories to
  remove is empty and \<open>run\<close> is exactly the \<open>run\<close> of the base clean command: this command
  deletes nothing and logs nothing of its own.
\<close>

theorem no_flags_no_targets:
  assumes "\<not> dist c" and "\<not> eggs c" and "\<not> environment c"
    and "iteration_order (set_order sys)"
  shows "build_dir_names d sys c f = Inr [] \<and> run b d sys c w = base_run b c w"
proof -
  have t: "build_dir_names d sys c f' = Inr []" for f'
    using assms(1-3)
    by (simp add: build_dir_names_def add_dist_def add_eggs_def add_environment_def
          split: option.splits)
  have "set_order sys [] = []"
    using assms(4) by (rule iteration_order_Nil)
  with t have "run b d sys c w = base_run b c w"
    by (simp add: run_def split: sum.splits)
  with t show ?thesis by simp
qed

theorem no_flags_no_targets_witness:
  "build_dir_names project_registry (table_system project_environ)
     ((initialize_options False)\<lparr>egg_base := Some ''pkg'', virtualenv_dir := Some ''/tmp/venv''\<rparr>)
     project_fs = Inr [] \<and>
   run idle_base project_registry (table_system project_environ)
     ((initialize_options False)\<lparr>egg_base := Some ''pkg'', virtualenv_dir := Some ''/tmp/venv''\<rparr>)
     \<lparr>fs = project_fs, log = []\<rparr> = Inr \<lparr>fs = project_fs, log = []\<rparr>"
  using no_flags_no_targets [of
      "(initialize_options False)\<lparr>egg_base := Some ''pkg'', virtualenv_dir := Some ''/tmp/venv''\<rparr>"
      "table_system project_environ" project_registry project_fs idle_base
      "\<lparr>fs = project_fs, log = []\<rparr>"]
  by (simp add: initialize_options_def table_system_def iteration_order_def idle_base_def)

subsection \<open>What each flag schedules\<close>

text \<open>
  C3. With \<open>eggs\<close> set, an \<open>egg_base\<close> that can be listed and a current directory that can
  be listed, the egg step of \<open>run\<close> returns, and it adds to the set of directories exactly
  the entries of \<open>egg_base\<close> whose name ends with \<open>.egg-info\<close>, each joined with
  \<open>egg_base\<close>, and the entries of the current directory whose name ends with \<open>.egg\<close>, as
  they are. Entries with other names add nothing. What the step adds is in the set that
  \<open>run\<close> goes on to remove.
\<close>

theorem eggs_adds_egg_directories:
  assumes "eggs c" and "egg_base c = Some eb"
    and "os_listdir sys f eb = Some names"
    and "os_listdir sys f os_curdir = Some names2"
  shows "(\<exists>dn'. add_eggs sys c f dn = Inr dn' \<and>
            set dn' = set dn
              \<union> {os_path_join eb name | name. name \<in> set names \<and> endswith name ''.egg-info''}
              \<union> {name \<in> set names2. endswith name ''.egg''}) \<and>
         (\<forall>dn2. build_dir_names d sys c f = Inr dn2 \<longrightarrow>
            {os_path_join eb name | name. name \<in> set names \<and> endswith name ''.egg-info''}
              \<union> {name \<in> set names2. endswith name ''.egg''} \<subseteq> set dn2)"
proof -
  have step: "\<exists>dn'. add_eggs sys c f xs = Inr dn' \<and>
            set dn' = set xs
              \<union> {os_path_join eb name | name. name \<in> set names \<and> endswith name ''.egg-info''}
              \<union> {name \<in> set names2. endswith name ''.egg''}" for xs
  proof -
    obtain dn1 where l: "egg_info_loop (Some eb) names xs = Inr dn1"
      using egg_info_loop_returns by blast
    with assms have "add_eggs sys c f xs = Inr (egg_loop names2 dn1)"
      by (simp add: add_eggs_def)
    moreover have "set (egg_loop names2 dn1) = set xs
               \<union> {os_path_join eb name | name. name \<in> set names \<and> endswith name ''.egg-info''}
               \<union> {name \<in> set names2. endswith name ''.egg''}"
      using egg_info_loop_set [OF l] by (simp add: egg_loop_set)
    ultimately show ?thesis by blast
  qed
  have "{os_path_join eb name | name. name \<in> set names \<and> endswith name ''.egg-info''}
              \<union> {name \<in> set names2. endswith name ''.egg''} \<subseteq> set dn2"
    if "build_dir_names d sys c f = Inr dn2" for dn2
  proof -
    from that obtain dn0 dn1 where "add_eggs sys c f dn0 = Inr dn1"
      and "dn2 = add_environment c dn1"
      by (auto simp: build_dir_names_def split: sum.splits)
    with step [of dn0] show ?thesis
      using add_environment_mono [of dn1 c] by auto
  qed
  with step [of dn] show ?thesis by blast
qed

theorem eggs_adds_egg_directories_witness:
  "add_eggs (table_system project_environ) eggs_options project_fs []
     = Inr [''pkg/foo.egg-info'', ''baz.egg'']"
  using eggs_adds_egg_directories [of eggs_options "''pkg''"
      "table_system project_environ" project_fs "[''foo.egg-info'', ''bar.txt'']"
      "[''baz.egg'', ''build'', ''pkg'', ''setup.py'']" "[]"]
  by (simp add: eggs_options_def initialize_options_def table_system_def table_listdir_def
        project_fs_def os_curdir_def add_eggs_def endswith_def suffix_to_prefix set_add_def
        os_path_join_def)

text \<open>
  C4. With \<open>dist\<close> set, and when obtaining and finalizing the commands named like \<open>dist\<close>
  raises nothing, the dist step of \<open>run\<close> returns and adds exactly the distribution
  directories of the specification: the non-empty \<open>dist_dir\<close> of every registered command
  whose name contains \<open>dist\<close>. A command without a \<open>dist_dir\<close>, or with \<open>None\<close> or the empty
  string there, adds nothing. These directories are in the set that \<open>run\<close> goes on to
  remove.
\<close>

theorem dist_adds_dist_dirs:
  assumes "dist c"
    and "\<forall>(cmd_name, descr) \<in> set (get_command_list d). str_contains cmd_name ''dist'' \<longrightarrow>
           (\<exists>command. get_command_obj d cmd_name = Inr command \<and> ensure_finalized command = None)"
  shows "(\<exists>dn'. add_dist d c dn = Inr dn' \<and> set dn' = set dn \<union> spec_dist_dirs d) \<and>
         (\<forall>dn2. build_dir_names d sys c f = Inr dn2 \<longrightarrow> spec_dist_dirs d \<subseteq> set dn2)"
proof -
  have step: "\<exists>dn'. add_dist d c xs = Inr dn' \<and> set dn' = set xs \<union> spec_dist_dirs d" for xs
  proof -
    obtain dn' where r: "dist_loop d (get_command_list d) xs = Inr dn'"
      using dist_loop_returns [OF assms(2)] by blast
    with assms(1) have "add_dist d c xs = Inr dn'"
      by (simp add: add_dist_def)
    with dist_loop_set [OF r] show ?thesis
      unfolding spec_dist_dirs_def by blast
  qed
  have "spec_dist_dirs d \<subseteq> set dn2" if "build_dir_names d sys c f = Inr dn2" for dn2
  proof -
    from that obtain dn0 dn1 where "add_dist d c [] = Inr dn0"
      and "add_eggs sys c f dn0 = Inr dn1" and "dn2 = add_environment c dn1"
      by (auto simp: build_dir_names_def split: sum.splits)
    with step [of "[]"] show ?thesis
      using add_eggs_mono [of sys c f dn0 dn1] add_environment_mono [of dn1 c] by auto
  qed
  with step [of dn] show ?thesis by blast
qed

theorem dist_adds_dist_dirs_witness:
  "spec_dist_dirs project_registry = {''build/out''} \<and>
   add_dist project_registry dist_options [] = Inr [''build/out'']"
proof -
  have flag: "dist dist_options"
    by (simp add: dist_options_def initialize_options_def)
  have found: "\<forall>(cmd_name, descr) \<in> set (get_command_list project_registry).
      str_contains cmd_name ''dist'' \<longrightarrow>
        (\<exists>command. get_command_obj project_registry cmd_name = Inr command \<and>
                   ensure_finalized command = None)"
    by (simp add: project_command_list project_command_objs plain_command_def)
  have "\<exists>dn'. add_dist project_registry dist_options [] = Inr dn' \<and>
      set dn' = set [] \<union> spec_dist_dirs project_registry"
    by (rule conjunct1 [OF dist_adds_dist_dirs [OF flag found]])
  then show ?thesis
    unfolding project_add_dist by simp
qed

subsection \<open>finalize_options\<close>

lemma finalize_options_cases:
  assumes "finalize_options b d sys c = Inr c'"
  obtains c1 where "base_finalize_options b = None"
    and "set_undefined_options d c = Inr c1 \<or>
         (\<exists>e. set_undefined_options d c = Inl e \<and> is_DistutilsError e \<and> c1 = c)"
    and "c' = (let c2 = (if egg_base c1 = None then c1\<lparr>egg_base := Some os_curdir\<rparr> else c1)
               in if environment c2 \<and> virtualenv_dir c2 = None
                  then c2\<lparr>virtualenv_dir := os_environ sys ''VIRTUAL_ENV''\<rparr> else c2)"
  using assms
  by (auto simp: finalize_options_def Let_def split: option.splits sum.splits if_splits)

lemma set_undefined_options_other:
  "set_undefined_options d c = Inr c1 \<Longrightarrow>
     environment c1 = environment c \<and> virtualenv_dir c1 = virtualenv_dir c \<and>
     dist c1 = dist c \<and> eggs c1 = eggs c \<and> dry_run c1 = dry_run c \<and>
     (egg_base c \<noteq> None \<longrightarrow> c1 = c)"
  by (auto simp: set_undefined_options_def split: sum.splits option.splits if_splits attr.splits)

text \<open>
  C5. When \<open>finalize_options\<close> returns: if \<open>environment\<close> is set and no \<open>virtualenv_dir\<close> was
  given, \<open>virtualenv_dir\<close> becomes the value of the environment variable \<open>VIRTUAL_ENV\<close>; if
  that variable is absent and no directory was given, \<open>virtualenv_dir\<close> stays \<open>None\<close> and the
  environment step of \<open>run\<close> adds nothing; and if \<open>environment\<close> is set and \<open>virtualenv_dir\<close>
  ends up a non-empty string, the environment step adds it, and it is in the set that
  \<open>run\<close> goes on to remove.
\<close>

theorem environment_directory:
  assumes "finalize_options b d sys c = Inr c'"
  shows "(environment c \<and> virtualenv_dir c = None \<longrightarrow>
            virtualenv_dir c' = os_environ sys ''VIRTUAL_ENV'') \<and>
         (virtualenv_dir c = None \<and> os_environ sys ''VIRTUAL_ENV'' = None \<longrightarrow>
            virtualenv_dir c' = None \<and> add_environment c' dn = dn) \<and>
         (\<forall>v. environment c' \<and> virtualenv_dir c' = Some v \<and> v \<noteq> [] \<longrightarrow>
            add_environment c' dn = set_add v dn \<and>
            (\<forall>dn2. build_dir_names d sys c' f = Inr dn2 \<longrightarrow> v \<in> set dn2))"
proof -
  from assms obtain c1 where
    su: "set_undefined_options d c = Inr c1 \<or>
         (\<exists>e. set_undefined_options d c = Inl e \<and> is_DistutilsError e \<and> c1 = c)"
    and c': "c' = (let c2 = (if egg_base c1 = None then c1\<lparr>egg_base := Some os_curdir\<rparr> else c1)
               in if environment c2 \<and> virtualenv_dir c2 = None
                  then c2\<lparr>virtualenv_dir := os_environ sys ''VIRTUAL_ENV''\<rparr> else c2)"
    by (rule finalize_options_cases)
  from su have same: "environment c1 = environment c \<and> virtualenv_dir c1 = virtualenv_dir c"
    using set_undefined_options_other by blast
  have 1: "virtualenv_dir c' = os_environ sys ''VIRTUAL_ENV''"
    if "environment c" and "virtualenv_dir c = None"
    using that same c' by (simp add: Let_def)
  have 2: "virtualenv_dir c' = None \<and> add_environment c' dn = dn"
    if "virtualenv_dir c = None" and "os_environ sys ''VIRTUAL_ENV'' = None"
    using that same c' by (simp add: Let_def add_environment_def)
  have 3: "add_environment c' dn = set_add v dn \<and>
            (\<forall>dn2. build_dir_names d sys c' f = Inr dn2 \<longrightarrow> v \<in> set dn2)"
    if "environment c'" and "virtualenv_dir c' = Some v" and "v \<noteq> []" for v
  proof -
    have "add_environment c' xs = set_add v xs" for xs
      using that by (simp add: add_environment_def)
    then show ?thesis
      by (auto simp: build_dir_names_def set_set_add split: sum.splits)
  qed
  from 1 2 3 show ?thesis by blast
qed

theorem environment_directory_witness:
  "finalize_options idle_base project_registry (table_system project_environ) venv_options
     = Inr venv_finalized \<and>
   virtualenv_dir venv_finalized = Some ''/tmp/venv'' \<and>
   add_environment venv_finalized [] = [''/tmp/venv'']"
proof -
  have su: "set_undefined_options project_registry venv_options
      = Inr (venv_options\<lparr>egg_base := Some ''pkg''\<rparr>)"
    by (simp add: set_undefined_options_def project_command_objs plain_command_def
          venv_options_def initialize_options_def)
  have e: "os_environ (table_system project_environ) ''VIRTUAL_ENV'' = Some ''/tmp/venv''"
    by (simp add: table_system_def project_environ_def)
  have fin: "finalize_options idle_base project_registry (table_system project_environ)
      venv_options = Inr venv_finalized"
    unfolding finalize_options_def su
    by (simp add: idle_base_finalize e venv_options_def venv_finalized_def initialize_options_def)
  have o: "environment venv_options \<and> virtualenv_dir venv_options = None"
    by (simp add: venv_options_def initialize_options_def)
  have f: "environment venv_finalized"
    by (simp add: venv_finalized_def)
  from environment_directory [OF fin, of "[]" project_fs] o e f
  have "virtualenv_dir venv_finalized = Some ''/tmp/venv''"
    and "add_environment venv_finalized [] = set_add ''/tmp/venv'' []"
    by simp_all
  with fin show ?thesis by (simp add: set_add_def)
qed

text \<open>
  C7, as amended. When the sibling egg-info lookup raises a \<open>DistutilsError\<close> (an
  undefined sibling raises \<open>DistutilsModuleError\<close>, which is one), \<open>finalize_options\<close>
  swallows it and goes on; any other exception of the lookup comes out of
  \<open>finalize_options\<close>. Whenever \<open>finalize_options\<close> returns, \<open>egg_base\<close> is what the
  attempt left if that is a string, and the current directory \<open>.\<close> if it left \<open>None\<close>.
\<close>

theorem sibling_failure_swallowed:
  assumes "base_finalize_options b = None"
  shows "(\<forall>e. set_undefined_options d c = Inl e \<and> is_DistutilsError e \<longrightarrow>
            (\<exists>c'. finalize_options b d sys c = Inr c'
                \<and> egg_base c' = Some (case egg_base c of None \<Rightarrow> os_curdir | Some eb \<Rightarrow> eb))) \<and>
         (\<forall>e. set_undefined_options d c = Inl e \<and> \<not> is_DistutilsError e \<longrightarrow>
            finalize_options b d sys c = Inl e) \<and>
         (get_command_obj d ''egg_info'' = Inl DistutilsModuleError \<longrightarrow>
            set_undefined_options d c = Inl DistutilsModuleError) \<and>
         (\<forall>c'. finalize_options b d sys c = Inr c' \<longrightarrow>
            egg_base c' = Some (case (case set_undefined_options d c of
                                        Inr c1 \<Rightarrow> egg_base c1 | Inl e \<Rightarrow> egg_base c) of
                                  None \<Rightarrow> os_curdir | Some eb \<Rightarrow> eb))"
proof -
  have 1: "\<exists>c'. finalize_options b d sys c = Inr c'
                \<and> egg_base c' = Some (case egg_base c of None \<Rightarrow> os_curdir | Some eb \<Rightarrow> eb)"
    if "set_undefined_options d c = Inl e" and "is_DistutilsError e" for e
    using that assms by (simp add: finalize_options_def Let_def split: option.splits)
  have 2: "finalize_options b d sys c = Inl e"
    if "set_undefined_options d c = Inl e" and "\<not> is_DistutilsError e" for e
    using that assms by (simp add: finalize_options_def)
  have 3: "set_undefined_options d c = Inl DistutilsModuleError"
    if "get_command_obj d ''egg_info'' = Inl DistutilsModuleError"
    using that by (simp add: set_undefined_options_def)
  have 4: "egg_base c' = Some (case (case set_undefined_options d c of
                                        Inr c1 \<Rightarrow> egg_base c1 | Inl e \<Rightarrow> egg_base c) of
                                  None \<Rightarrow> os_curdir | Some eb \<Rightarrow> eb)"
    if "finalize_options b d sys c = Inr c'" for c'
    using that
    by (auto simp: finalize_options_def Let_def split: option.splits sum.splits if_splits)
  from 1 2 3 4 show ?thesis by blast
qed

theorem sibling_failure_swallowed_witness:
  "set_undefined_options (registry []) (initialize_options False) = Inl DistutilsModuleError \<and>
   (\<exists>c'. finalize_options idle_base (registry []) (table_system project_environ)
           (initialize_options False) = Inr c' \<and> egg_base c' = Some ''.'')"
proof -
  have g: "get_command_obj (registry []) ''egg_info'' = Inl DistutilsModuleError"
    by (simp add: registry_def)
  have e: "egg_base (initialize_options False) = None"
    by (simp add: initialize_options_def)
  from sibling_failure_swallowed [OF idle_base_finalize, of "registry []" "initialize_options False"
      "table_system project_environ"] g e
  show ?thesis by (simp add: os_curdir_def)
qed

text \<open>
  The claim as it stands, that every failure of the lookup is swallowed, fails: an
  egg-info command without an \<open>egg_base\<close> attribute makes the lookup raise
  \<open>AttributeError\<close>, and one whose finalization raises \<open>OSError\<close> makes it raise that;
  \<open>except errors.DistutilsError\<close> catches neither.
\<close>

theorem sibling_failure_not_swallowed:
  "set_undefined_options bare_registry (initialize_options False) = Inl AttributeError \<and>
   \<not> is_DistutilsError AttributeError \<and>
   finalize_options idle_base bare_registry (table_system project_environ)
     (initialize_options False) = Inl AttributeError \<and>
   set_undefined_options broken_registry (initialize_options False) = Inl OSError \<and>
   \<not> is_DistutilsError OSError \<and>
   finalize_options idle_base broken_registry (table_system project_environ)
     (initialize_options False) = Inl OSError"
proof -
  have su: "set_undefined_options bare_registry (initialize_options False) = Inl AttributeError"
    by (simp add: set_undefined_options_def bare_registry_def registry_def plain_command_def
          initialize_options_def)
  have su': "set_undefined_options broken_registry (initialize_options False) = Inl OSError"
    by (simp add: set_undefined_options_def broken_registry_def registry_def)
  have 1: "finalize_options idle_base bare_registry (table_system project_environ)
     (initialize_options False) = Inl AttributeError"
    unfolding finalize_options_def su by (simp add: idle_base_finalize)
  have 2: "finalize_options idle_base broken_registry (table_system project_environ)
     (initialize_options False) = Inl OSError"
    unfolding finalize_options_def su' by (simp add: idle_base_finalize)
  from su su' 1 2 show ?thesis by simp
qed

text \<open>
  C9. An \<open>egg_base\<close> given explicitly is never overwritten: the sibling lookup leaves the
  options as they are, and when \<open>finalize_options\<close> returns, \<open>egg_base\<close> is the given value,
  whatever the sibling egg-info command defines. It does return when the base
  finalization raises nothing and the lookup raises at most a \<open>DistutilsError\<close>.
\<close>

theorem explicit_egg_base_kept:
  assumes "egg_base c = Some eb"
  shows "(\<forall>c'. finalize_options b d sys c = Inr c' \<longrightarrow> egg_base c' = Some eb) \<and>
         (\<forall>c1. set_undefined_options d c = Inr c1 \<longrightarrow> c1 = c) \<and>
         (base_finalize_options b = None \<and>
          (\<forall>e. set_undefined_options d c = Inl e \<longrightarrow> is_DistutilsError e) \<longrightarrow>
            (\<exists>c'. finalize_options b d sys c = Inr c'))"
proof -
  have keep: "c1 = c" if "set_undefined_options d c = Inr c1" for c1
    using that assms set_undefined_options_other [of d c c1] by simp
  have kept: "egg_base c' = Some eb" if "finalize_options b d sys c = Inr c'" for c'
  proof -
    from that obtain c1 where
      su: "set_undefined_options d c = Inr c1 \<or>
           (\<exists>e. set_undefined_options d c = Inl e \<and> is_DistutilsError e \<and> c1 = c)"
      and c': "c' = (let c2 = (if egg_base c1 = None then c1\<lparr>egg_base := Some os_curdir\<rparr> else c1)
               in if environment c2 \<and> virtualenv_dir c2 = None
                  then c2\<lparr>virtualenv_dir := os_environ sys ''VIRTUAL_ENV''\<rparr> else c2)"
      by (rule finalize_options_cases)
    from su keep have "c1 = c" by blast
    with c' assms show ?thesis by (simp add: Let_def)
  qed
  have returns: "\<exists>c'. finalize_options b d sys c = Inr c'"
    if "base_finalize_options b = None"
      and "\<forall>e. set_undefined_options d c = Inl e \<longrightarrow> is_DistutilsError e"
    using that by (simp add: finalize_options_def Let_def split: sum.splits)
  from keep kept returns show ?thesis by blast
qed

theorem explicit_egg_base_kept_witness:
  "get_command_obj project_registry ''egg_info'' = Inr (plain_command Missing (PyStr ''pkg'')) \<and>
   finalize_options idle_base project_registry (table_system project_environ) src_options
     = Inr src_options \<and>
   egg_base src_options = Some ''src''"
proof -
  have eb: "egg_base src_options = Some ''src''"
    by (simp add: src_options_def initialize_options_def)
  have su: "set_undefined_options project_registry src_options = Inr src_options"
    by (simp add: set_undefined_options_def project_command_objs plain_command_def eb)
  have fin: "finalize_options idle_base project_registry (table_system project_environ)
      src_options = Inr src_options"
    unfolding finalize_options_def su
    by (simp add: idle_base_finalize Let_def src_options_def initialize_options_def)
  from explicit_egg_base_kept [OF eb, of idle_base project_registry "table_system project_environ"] fin
  have "egg_base src_options = Some ''src''" by simp
  with fin show ?thesis by (simp add: project_command_objs)
qed

subsection \<open>Failures while the set is built\<close>

text \<open>
  C10. With \<open>eggs\<close> set and an \<open>egg_base\<close> that cannot be listed (it does not exist or is
  unreadable) once the base clean command has run, \<open>run\<close> raises, in the very world the
  base clean command left: nothing has been removed or announced by this command. When
  the base clean command returned and the dist step raised nothing, the exception is the
  \<open>OSError\<close> of \<open>os.listdir\<close>, raised while the set is built.
\<close>

theorem egg_base_unlistable_raises:
  assumes "eggs c" and "egg_base c = Some eb"
    and "os_listdir sys (fs (world_of (base_run b c w))) eb = None"
  shows "(\<exists>e. run b d sys c w = Inl (e, world_of (base_run b c w))) \<and>
         (\<forall>w1 dn. base_run b c w = Inr w1 \<and> add_dist d c [] = Inr dn \<longrightarrow>
            build_dir_names d sys c (fs w1) = Inl OSError \<and>
            run b d sys c w = Inl (OSError, w1))"
proof -
  have eggs_fail: "add_eggs sys c (fs (world_of (base_run b c w))) dn = Inl OSError" for dn
    using assms by (simp add: add_eggs_def)
  have build_fail: "\<exists>e. build_dir_names d sys c (fs (world_of (base_run b c w))) = Inl e"
    by (simp add: build_dir_names_def eggs_fail split: sum.splits)
  have 1: "\<exists>e. run b d sys c w = Inl (e, world_of (base_run b c w))"
  proof (cases "base_run b c w")
    case (Inl ew)
    then show ?thesis by (cases ew) (simp add: run_def world_of_def)
  next
    case (Inr w1)
    with build_fail obtain e where "build_dir_names d sys c (fs w1) = Inl e"
      by (auto simp: world_of_def)
    with Inr show ?thesis by (simp add: run_def world_of_def)
  qed
  have 2: "build_dir_names d sys c (fs w1) = Inl OSError \<and> run b d sys c w = Inl (OSError, w1)"
    if "base_run b c w = Inr w1" and "add_dist d c [] = Inr dn" for w1 dn
  proof -
    from that(1) eggs_fail have "add_eggs sys c (fs w1) dn = Inl OSError"
      by (simp add: world_of_def)
    with that show ?thesis by (simp add: run_def build_dir_names_def)
  qed
  from 1 2 show ?thesis by blast
qed

theorem egg_base_unlistable_raises_witness:
  "run idle_base project_registry (table_system project_environ) src_options
      \<lparr>fs = project_fs, log = []\<rparr> = Inl (OSError, \<lparr>fs = project_fs, log = []\<rparr>)"
proof -
  have 1: "eggs src_options" and 2: "egg_base src_options = Some ''src''"
    and 4: "\<not> dist src_options"
    by (simp_all add: src_options_def initialize_options_def)
  have 3: "os_listdir (table_system project_environ)
      (fs (world_of (base_run idle_base src_options \<lparr>fs = project_fs, log = []\<rparr>))) ''src'' = None"
    by (simp add: idle_base_run world_of_def table_system_def table_listdir_def project_fs_def)
  have 5: "add_dist project_registry src_options [] = Inr []"
    using 4 by (simp add: add_dist_def)
  from egg_base_unlistable_raises [OF 1 2 3, of project_registry] idle_base_run 5
  show ?thesis by simp
qed

subsection \<open>The removal loop\<close>

lemma removing_msg_eq [simp]: "removing_msg x = removing_msg y \<longleftrightarrow> x = y"
  by (simp add: removing_msg_def)

lemma skipping_msg_eq [simp]: "skipping_msg x = skipping_msg y \<longleftrightarrow> x = y"
  by (simp add: skipping_msg_def)

lemma removing_not_skipping [simp]:
  "removing_msg x \<noteq> skipping_msg y" "skipping_msg y \<noteq> removing_msg x"
  by (simp_all add: removing_msg_def skipping_msg_def)

lemma remove_tree_dry: "remove_tree sys p True w = Inr (announce (removing_msg p) w)"
  by (simp add: remove_tree_def)

lemma remove_tree_world:
  "world_of (remove_tree sys p dry w) =
     \<lparr>fs = (if dry then fs w else fst (delete_tree sys (fs w) p)),
      log = log w @ [removing_msg p]\<rparr>"
  by (auto simp: remove_tree_def world_of_def announce_def Let_def split: prod.splits option.splits)

lemma remove_tree_Inr:
  "remove_tree sys p dry w = Inr w' \<Longrightarrow> w' = world_of (remove_tree sys p dry w)"
  by (simp add: world_of_def)

lemma remove_dirs_dry:
  "dry_run c \<Longrightarrow>
   remove_dirs sys c ds w = Inr (w\<lparr>log := log w @ map (report sys (fs w)) ds\<rparr>)"
proof (induction ds arbitrary: w)
  case Nil
  then show ?case by simp
next
  case (Cons p ps)
  show ?case
  proof (cases "os_path_exists sys (fs w) p")
    case True
    with Cons.prems have "remove_dirs sys c (p # ps) w
        = remove_dirs sys c ps (announce (removing_msg p) w)"
      by (simp add: remove_tree_dry)
    also have "\<dots> = Inr ((announce (removing_msg p) w)
        \<lparr>log := log (announce (removing_msg p) w)
            @ map (report sys (fs (announce (removing_msg p) w))) ps\<rparr>)"
      by (rule Cons.IH [OF Cons.prems])
    finally show ?thesis
      using True by (simp add: announce_def report_def)
  next
    case False
    then have "remove_dirs sys c (p # ps) w
        = remove_dirs sys c ps (announce (skipping_msg p) w)"
      by simp
    also have "\<dots> = Inr ((announce (skipping_msg p) w)
        \<lparr>log := log (announce (skipping_msg p) w)
            @ map (report sys (fs (announce (skipping_msg p) w))) ps\<rparr>)"
      by (rule Cons.IH [OF Cons.prems])
    finally show ?thesis
      using False by (simp add: announce_def report_def)
  qed
qed

lemma remove_dirs_undisturbed:
  "\<not> dry_run c \<Longrightarrow> undisturbed sys ds (fs w) \<Longrightarrow>
   \<exists>w'. remove_dirs sys c ds w = Inr w' \<and> log w' = log w @ map removing_msg ds"
proof (induction ds arbitrary: w)
  case Nil
  then show ?case by simp
next
  case (Cons p ps)
  from Cons.prems(2) obtain f' where ex: "os_path_exists sys (fs w) p"
    and del: "delete_tree sys (fs w) p = (f', None)" and rest: "undisturbed sys ps f'"
    by (auto split: prod.splits option.splits)
  let ?w1 = "(announce (removing_msg p) w)\<lparr>fs := f'\<rparr>"
  from Cons.prems(1) del have rt: "remove_tree sys p (dry_run c) w = Inr ?w1"
    by (simp add: remove_tree_def announce_def)
  from rest have "undisturbed sys ps (fs ?w1)" by simp
  from Cons.IH [OF Cons.prems(1) this] obtain w' where
    "remove_dirs sys c ps ?w1 = Inr w'" and "log w' = log ?w1 @ map removing_msg ps"
    by blast
  with ex rt show ?case by (simp add: announce_def)
qed

lemma run_world_dry:
  "dry_run c \<Longrightarrow> fs (world_of (run b d sys c w)) = fs (world_of (base_run b c w))"
  by (auto simp: run_def world_of_def remove_dirs_dry split: sum.splits prod.splits)

lemma distinct_count_list: "distinct xs \<Longrightarrow> count_list xs x \<le> 1"
  by (induction xs) (auto simp: count_list_0_iff)

lemma remove_dirs_log:
  "\<exists>ms. log (world_of (remove_dirs sys c ds w)) = log w @ ms \<and>
        (\<forall>p. count_list ms (removing_msg p) + count_list ms (skipping_msg p) \<le> count_list ds p)"
proof (induction ds arbitrary: w)
  case Nil
  then show ?case by (simp add: world_of_def)
next
  case (Cons x xs)
  show ?case
  proof (cases "os_path_exists sys (fs w) x")
    case False
    let ?w1 = "announce (skipping_msg x) w"
    from Cons.IH [of ?w1] obtain ms where
      l: "log (world_of (remove_dirs sys c xs ?w1)) = log ?w1 @ ms"
      and n: "\<forall>p. count_list ms (removing_msg p) + count_list ms (skipping_msg p) \<le> count_list xs p"
      by blast
    from False l have "log (world_of (remove_dirs sys c (x # xs) w)) = log w @ (skipping_msg x # ms)"
      by (simp add: announce_def)
    moreover have "count_list (skipping_msg x # ms) (removing_msg p)
        + count_list (skipping_msg x # ms) (skipping_msg p) \<le> count_list (x # xs) p" for p
      using n [rule_format, of p] by simp
    ultimately show ?thesis by blast
  next
    case True
    let ?w1 = "world_of (remove_tree sys x (dry_run c) w)"
    have l1: "log ?w1 = log w @ [removing_msg x]"
      by (simp add: remove_tree_world)
    show ?thesis
    proof (cases "remove_tree sys x (dry_run c) w")
      case (Inl ew)
      with True have "world_of (remove_dirs sys c (x # xs) w) = ?w1"
        by (simp add: world_of_def)
      with l1 have "log (world_of (remove_dirs sys c (x # xs) w)) = log w @ [removing_msg x]"
        by simp
      moreover have "count_list [removing_msg x] (removing_msg p)
          + count_list [removing_msg x] (skipping_msg p) \<le> count_list (x # xs) p" for p
        by simp
      ultimately show ?thesis by blast
    next
      case (Inr w')
      then have w': "w' = ?w1" by (simp add: world_of_def)
      from Cons.IH [of ?w1] obtain ms where
        l: "log (world_of (remove_dirs sys c xs ?w1)) = log ?w1 @ ms"
        and n: "\<forall>p. count_list ms (removing_msg p) + count_list ms (skipping_msg p) \<le> count_list xs p"
        by blast
      from True Inr have step: "remove_dirs sys c (x # xs) w = remove_dirs sys c xs w'"
        by simp
      from l l1 have "log (world_of (remove_dirs sys c xs w')) = log w @ (removing_msg x # ms)"
        unfolding w' by simp
      with step
      have "log (world_of (remove_dirs sys c (x # xs) w)) = log w @ (removing_msg x # ms)"
        by simp
      moreover have "count_list (removing_msg x # ms) (removing_msg p)
          + count_list (removing_msg x # ms) (skipping_msg p) \<le> count_list (x # xs) p" for p
        using n [rule_format, of p] by simp
      ultimately show ?thesis by blast
    qed
  qed
qed

lemma remove_tree_absent:
  assumes "sound_delete sys" and "remove_tree sys p dry w = Inr w'"
    and "\<not> os_path_exists sys (fs w) q"
  shows "\<not> os_path_exists sys (fs w') q"
proof (cases dry)
  case True
  with assms(2) have "fs w' = fs w" by (auto simp: remove_tree_def announce_def)
  with assms(3) show ?thesis by simp
next
  case False
  with assms(2) obtain f' where "delete_tree sys (fs w) p = (f', None)" and "fs w' = f'"
    by (auto simp: remove_tree_def announce_def Let_def split: prod.splits option.splits)
  with assms(1,3) show ?thesis by (auto simp: sound_delete_def)
qed

lemma remove_tree_gone:
  assumes "sound_delete sys" and "remove_tree sys p False w = Inr w'"
  shows "\<not> os_path_exists sys (fs w') p"
proof -
  from assms(2) obtain f' where "delete_tree sys (fs w) p = (f', None)" and "fs w' = f'"
    by (auto simp: remove_tree_def announce_def Let_def split: prod.splits option.splits)
  with assms(1) show ?thesis by (auto simp: sound_delete_def)
qed

lemma remove_tree_log_Inr:
  "remove_tree sys p dry w = Inr w' \<Longrightarrow> log w' = log w @ [removing_msg p]"
  using remove_tree_world [of sys p dry w] by (simp add: world_of_def)

lemma remove_dirs_cases:
  assumes "remove_dirs sys c (p # ps) w = Inr w'"
  obtains w1 where "remove_dirs sys c ps w1 = Inr w'"
    and "os_path_exists sys (fs w) p \<and> remove_tree sys p (dry_run c) w = Inr w1
         \<or> \<not> os_path_exists sys (fs w) p \<and> w1 = announce (skipping_msg p) w"
  using assms by (auto split: if_splits sum.splits)

lemma remove_dirs_log_mono:
  "remove_dirs sys c ds w = Inr w' \<Longrightarrow> set (log w) \<subseteq> set (log w')"
proof (induction ds arbitrary: w)
  case Nil
  then show ?case by simp
next
  case (Cons p ps)
  from Cons.prems obtain w1 where r: "remove_dirs sys c ps w1 = Inr w'"
    and s: "os_path_exists sys (fs w) p \<and> remove_tree sys p (dry_run c) w = Inr w1
         \<or> \<not> os_path_exists sys (fs w) p \<and> w1 = announce (skipping_msg p) w"
    by (rule remove_dirs_cases)
  from s have "set (log w) \<subseteq> set (log w1)"
    by (auto simp: announce_def dest: remove_tree_log_Inr)
  with Cons.IH [OF r] show ?case by blast
qed

lemma remove_dirs_reports_all:
  "remove_dirs sys c ds w = Inr w' \<Longrightarrow> q \<in> set ds \<Longrightarrow>
   removing_msg q \<in> set (log w') \<or> skipping_msg q \<in> set (log w')"
proof (induction ds arbitrary: w)
  case Nil
  then show ?case by simp
next
  case (Cons p ps)
  from Cons.prems(1) obtain w1 where r: "remove_dirs sys c ps w1 = Inr w'"
    and s: "os_path_exists sys (fs w) p \<and> remove_tree sys p (dry_run c) w = Inr w1
         \<or> \<not> os_path_exists sys (fs w) p \<and> w1 = announce (skipping_msg p) w"
    by (rule remove_dirs_cases)
  show ?case
  proof (cases "q = p")
    case True
    from s have "removing_msg p \<in> set (log w1) \<or> skipping_msg p \<in> set (log w1)"
      by (auto simp: announce_def dest: remove_tree_log_Inr)
    with remove_dirs_log_mono [OF r] True show ?thesis by blast
  next
    case False
    with Cons.prems(2) have "q \<in> set ps" by simp
    from Cons.IH [OF r this] show ?thesis .
  qed
qed

lemma remove_dirs_absent:
  "sound_delete sys \<Longrightarrow> remove_dirs sys c ds w = Inr w' \<Longrightarrow>
   \<not> os_path_exists sys (fs w) q \<Longrightarrow> \<not> os_path_exists sys (fs w') q"
proof (induction ds arbitrary: w)
  case Nil
  then show ?case by simp
next
  case (Cons p ps)
  from Cons.prems(2) obtain w1 where r: "remove_dirs sys c ps w1 = Inr w'"
    and s: "os_path_exists sys (fs w) p \<and> remove_tree sys p (dry_run c) w = Inr w1
         \<or> \<not> os_path_exists sys (fs w) p \<and> w1 = announce (skipping_msg p) w"
    by (rule remove_dirs_cases)
  from s Cons.prems(1,3) have "\<not> os_path_exists sys (fs w1) q"
    by (auto simp: announce_def dest: remove_tree_absent)
  with Cons.IH [OF Cons.prems(1) r] show ?case by blast
qed

lemma remove_dirs_skips:
  "sound_delete sys \<Longrightarrow> remove_dirs sys c ds w = Inr w' \<Longrightarrow> q \<in> set ds \<Longrightarrow>
   \<not> os_path_exists sys (fs w) q \<Longrightarrow> skipping_msg q \<in> set (log w')"
proof (induction ds arbitrary: w)
  case Nil
  then show ?case by simp
next
  case (Cons p ps)
  from Cons.prems(2) obtain w1 where r: "remove_dirs sys c ps w1 = Inr w'"
    and s: "os_path_exists sys (fs w) p \<and> remove_tree sys p (dry_run c) w = Inr w1
         \<or> \<not> os_path_exists sys (fs w) p \<and> w1 = announce (skipping_msg p) w"
    by (rule remove_dirs_cases)
  show ?case
  proof (cases "q = p")
    case True
    with s Cons.prems(4) have "skipping_msg q \<in> set (log w1)"
      by (simp add: announce_def)
    with remove_dirs_log_mono [OF r] show ?thesis by blast
  next
    case False
    with Cons.prems(3) have q: "q \<in> set ps" by simp
    from s Cons.prems(1,4) have "\<not> os_path_exists sys (fs w1) q"
      by (auto simp: announce_def dest: remove_tree_absent)
    from Cons.IH [OF Cons.prems(1) r q this] show ?thesis .
  qed
qed

lemma remove_dirs_all_gone:
  "sound_delete sys \<Longrightarrow> \<not> dry_run c \<Longrightarrow> remove_dirs sys c ds w = Inr w' \<Longrightarrow>
   q \<in> set ds \<Longrightarrow> \<not> os_path_exists sys (fs w') q"
proof (induction ds arbitrary: w)
  case Nil
  then show ?case by simp
next
  case (Cons p ps)
  from Cons.prems(3) obtain w1 where r: "remove_dirs sys c ps w1 = Inr w'"
    and s: "os_path_exists sys (fs w) p \<and> remove_tree sys p (dry_run c) w = Inr w1
         \<or> \<not> os_path_exists sys (fs w) p \<and> w1 = announce (skipping_msg p) w"
    by (rule remove_dirs_cases)
  show ?case
  proof (cases "q = p")
    case True
    from s Cons.prems(1,2) have "\<not> os_path_exists sys (fs w1) p"
      by (auto simp: announce_def dest: remove_tree_gone)
    with remove_dirs_absent [OF Cons.prems(1) r] True show ?thesis by blast
  next
    case False
    with Cons.prems(4) have "q \<in> set ps" by simp
    from Cons.IH [OF Cons.prems(1,2) r this] show ?thesis .
  qed
qed

lemma remove_dirs_raises:
  "remove_dirs sys c ds w = Inl (e, w') \<Longrightarrow>
   \<not> dry_run c \<and> (\<exists>f q. q \<in> set ds \<and> os_path_exists sys f q \<and> snd (delete_tree sys f q) = Some e)"
proof (induction ds arbitrary: w)
  case Nil
  then show ?case by simp
next
  case (Cons p ps)
  show ?case
  proof (cases "os_path_exists sys (fs w) p")
    case False
    with Cons.prems have "remove_dirs sys c ps (announce (skipping_msg p) w) = Inl (e, w')"
      by simp
    from Cons.IH [OF this] show ?thesis by auto
  next
    case True
    show ?thesis
    proof (cases "remove_tree sys p (dry_run c) w")
      case (Inr w1)
      with True Cons.prems have "remove_dirs sys c ps w1 = Inl (e, w')" by simp
      from Cons.IH [OF this] show ?thesis by auto
    next
      case (Inl ew)
      with True Cons.prems have "remove_tree sys p (dry_run c) w = Inl (e, w')" by simp
      then have "\<not> dry_run c \<and> snd (delete_tree sys (fs w) p) = Some e"
        by (auto simp: remove_tree_def announce_def Let_def split: if_splits prod.splits option.splits)
      with True show ?thesis by auto
    qed
  qed
qed

lemma distinct_count_list_1: "distinct xs \<Longrightarrow> x \<in> set xs \<Longrightarrow> count_list xs x = 1"
  by (induction xs) auto

lemma remove_dirs_log_exact:
  "remove_dirs sys c ds w = Inr w' \<Longrightarrow>
   \<exists>ms. log w' = log w @ ms \<and>
        (\<forall>p. count_list ms (removing_msg p) + count_list ms (skipping_msg p) = count_list ds p)"
proof (induction ds arbitrary: w)
  case Nil
  then show ?case by simp
next
  case (Cons x xs)
  from Cons.prems obtain w1 where r: "remove_dirs sys c xs w1 = Inr w'"
    and s: "os_path_exists sys (fs w) x \<and> remove_tree sys x (dry_run c) w = Inr w1
         \<or> \<not> os_path_exists sys (fs w) x \<and> w1 = announce (skipping_msg x) w"
    by (rule remove_dirs_cases)
  from Cons.IH [OF r] obtain ms where l: "log w' = log w1 @ ms"
    and n: "\<forall>p. count_list ms (removing_msg p) + count_list ms (skipping_msg p) = count_list xs p"
    by blast
  from s obtain m where m: "m = removing_msg x \<or> m = skipping_msg x"
    and l1: "log w1 = log w @ [m]"
    by (auto simp: announce_def dest: remove_tree_log_Inr)
  from l l1 have "log w' = log w @ (m # ms)" by simp
  moreover have "count_list (m # ms) (removing_msg p) + count_list (m # ms) (skipping_msg p)
      = count_list (x # xs) p" for p
    using m n [rule_format, of p] by auto
  ultimately show ?case by blast
qed

lemma remove_dirs_log_shape:
  "remove_dirs sys c ds w = Inr w' \<Longrightarrow>
   \<exists>ms. log w' = log w @ ms \<and>
        list_all2 (\<lambda>m p. m = removing_msg p \<or> m = skipping_msg p) ms ds"
proof (induction ds arbitrary: w)
  case Nil
  then show ?case by simp
next
  case (Cons x xs)
  from Cons.prems obtain w1 where r: "remove_dirs sys c xs w1 = Inr w'"
    and s: "os_path_exists sys (fs w) x \<and> remove_tree sys x (dry_run c) w = Inr w1
         \<or> \<not> os_path_exists sys (fs w) x \<and> w1 = announce (skipping_msg x) w"
    by (rule remove_dirs_cases)
  from Cons.IH [OF r] obtain ms where l: "log w' = log w1 @ ms"
    and n: "list_all2 (\<lambda>m p. m = removing_msg p \<or> m = skipping_msg p) ms xs"
    by blast
  from s obtain m where m: "m = removing_msg x \<or> m = skipping_msg x"
    and l1: "log w1 = log w @ [m]"
    by (auto simp: announce_def dest: remove_tree_log_Inr)
  from l l1 have "log w' = log w @ (m # ms)" by simp
  moreover from m n
  have "list_all2 (\<lambda>m p. m = removing_msg p \<or> m = skipping_msg p) (m # ms) (x # xs)"
    by simp
  ultimately show ?case by blast
qed

lemma removing_msgs_same_paths:
  "list_all2 (\<lambda>m p. m = removing_msg p \<or> m = skipping_msg p) (map removing_msg es) ds
   \<Longrightarrow> es = ds"
proof (induction es arbitrary: ds)
  case Nil
  then show ?case by simp
next
  case (Cons e es)
  then show ?case by (cases ds) auto
qed

lemma remove_dirs_log_undisturbed:
  "\<not> dry_run c \<Longrightarrow> remove_dirs sys c ds w = Inr w' \<Longrightarrow>
   log w' = log w @ map removing_msg ds \<Longrightarrow> undisturbed sys ds (fs w)"
proof (induction ds arbitrary: w)
  case Nil
  then show ?case by simp
next
  case (Cons p ps)
  from Cons.prems(2) obtain w1 where r: "remove_dirs sys c ps w1 = Inr w'"
    and s: "os_path_exists sys (fs w) p \<and> remove_tree sys p (dry_run c) w = Inr w1
         \<or> \<not> os_path_exists sys (fs w) p \<and> w1 = announce (skipping_msg p) w"
    by (rule remove_dirs_cases)
  obtain ms where "log (world_of (remove_dirs sys c ps w1)) = log w1 @ ms"
    using remove_dirs_log by blast
  with r have ms: "log w' = log w1 @ ms" by (simp add: world_of_def)
  show ?case
  proof (cases "os_path_exists sys (fs w) p")
    case False
    with s have "log w1 = log w @ [skipping_msg p]" by (simp add: announce_def)
    with ms Cons.prems(3) show ?thesis by simp
  next
    case True
    with s have rt: "remove_tree sys p (dry_run c) w = Inr w1" by simp
    then have l1: "log w1 = log w @ [removing_msg p]" by (rule remove_tree_log_Inr)
    with ms Cons.prems(3) have "log w' = log w1 @ map removing_msg ps" by simp
    from Cons.IH [OF Cons.prems(1) r this] have u: "undisturbed sys ps (fs w1)" .
    from rt Cons.prems(1) have "delete_tree sys (fs w) p = (fs w1, None)"
      by (auto simp: remove_tree_def announce_def Let_def split: prod.splits option.splits)
    with True u show ?thesis by simp
  qed
qed

text \<open>
  C2, as amended. In a dry run, \<open>run\<close> leaves the file system as the base clean command
  left it, whether it returns or raises. When the base clean command returns and the set
  of directories is built, \<open>run\<close> returns and has logged one message for each directory,
  decided against that unchanged file system: the removal notice of \<open>remove_tree\<close> for a
  directory that exists, the skip announcement for one that does not. With every
  directory existing, compare with \<open>run\<close> on the same options and world but
  \<open>dry_run\<close> false, whose base clean command returns: that run returns with the same
  messages after its base clean step exactly when it builds the same directories in the
  same order and its removal loop is undisturbed in the file system that its own base
  clean step left.
\<close>

theorem dry_run_reports_without_removing:
  assumes "dry_run c"
  shows "fs (world_of (run b d sys c w)) = fs (world_of (base_run b c w)) \<and>
         (\<forall>w1 dn. base_run b c w = Inr w1 \<and> build_dir_names d sys c (fs w1) = Inr dn \<longrightarrow>
            run b d sys c w
              = Inr (w1\<lparr>log := log w1 @ map (report sys (fs w1)) (set_order sys dn)\<rparr>) \<and>
            (\<forall>w1'. (\<forall>p \<in> set (set_order sys dn). os_path_exists sys (fs w1) p) \<and>
                   base_run b (c\<lparr>dry_run := False\<rparr>) w = Inr w1' \<longrightarrow>
               ((\<exists>w2. run b d sys (c\<lparr>dry_run := False\<rparr>) w = Inr w2 \<and>
                      drop (length (log w1')) (log w2)
                        = drop (length (log w1)) (log (world_of (run b d sys c w))))
                \<longleftrightarrow>
                (\<exists>dn'. build_dir_names d sys (c\<lparr>dry_run := False\<rparr>) (fs w1') = Inr dn' \<and>
                       set_order sys dn' = set_order sys dn \<and>
                       undisturbed sys (set_order sys dn) (fs w1')))))"
proof -
  let ?c' = "c\<lparr>dry_run := False\<rparr>"
  have nodry: "\<not> dry_run ?c'" by simp
  have 2: "run b d sys c w
              = Inr (w1\<lparr>log := log w1 @ map (report sys (fs w1)) (set_order sys dn)\<rparr>)"
    if "base_run b c w = Inr w1" and "build_dir_names d sys c (fs w1) = Inr dn" for w1 dn
    using that assms by (simp add: run_def remove_dirs_dry)
  have 3: "(\<exists>w2. run b d sys ?c' w = Inr w2 \<and>
                      drop (length (log w1')) (log w2)
                        = drop (length (log w1)) (log (world_of (run b d sys c w))))
                \<longleftrightarrow>
                (\<exists>dn'. build_dir_names d sys ?c' (fs w1') = Inr dn' \<and>
                       set_order sys dn' = set_order sys dn \<and>
                       undisturbed sys (set_order sys dn) (fs w1'))"
    if b1: "base_run b c w = Inr w1" and t1: "build_dir_names d sys c (fs w1) = Inr dn"
      and all: "\<forall>p \<in> set (set_order sys dn). os_path_exists sys (fs w1) p"
      and b2: "base_run b ?c' w = Inr w1'" for w1 dn w1'
  proof -
    from all have "map (report sys (fs w1)) (set_order sys dn) = map removing_msg (set_order sys dn)"
      by (simp add: report_def)
    with 2 [OF b1 t1] have dry: "drop (length (log w1)) (log (world_of (run b d sys c w)))
        = map removing_msg (set_order sys dn)"
      by (simp add: world_of_def)
    show ?thesis
    proof
      assume "\<exists>w2. run b d sys ?c' w = Inr w2 \<and>
                      drop (length (log w1')) (log w2)
                        = drop (length (log w1)) (log (world_of (run b d sys c w)))"
      then obtain w2 where r: "run b d sys ?c' w = Inr w2"
        and m: "drop (length (log w1')) (log w2) = map removing_msg (set_order sys dn)"
        using dry by auto
      from r b2 obtain dn' where t2: "build_dir_names d sys ?c' (fs w1') = Inr dn'"
        and loop: "remove_dirs sys ?c' (set_order sys dn') w1' = Inr w2"
        by (auto simp: run_def split: sum.splits)
      from remove_dirs_log_shape [OF loop] obtain ms where l: "log w2 = log w1' @ ms"
        and sh: "list_all2 (\<lambda>m p. m = removing_msg p \<or> m = skipping_msg p) ms (set_order sys dn')"
        by blast
      from l m have ms: "ms = map removing_msg (set_order sys dn)" by simp
      with sh have same: "set_order sys dn = set_order sys dn'"
        by (simp add: removing_msgs_same_paths)
      with l ms have "log w2 = log w1' @ map removing_msg (set_order sys dn')" by simp
      with nodry loop have "undisturbed sys (set_order sys dn') (fs w1')"
        by (rule remove_dirs_log_undisturbed)
      with t2 same show "\<exists>dn'. build_dir_names d sys ?c' (fs w1') = Inr dn' \<and>
                       set_order sys dn' = set_order sys dn \<and>
                       undisturbed sys (set_order sys dn) (fs w1')"
        by auto
    next
      assume "\<exists>dn'. build_dir_names d sys ?c' (fs w1') = Inr dn' \<and>
                       set_order sys dn' = set_order sys dn \<and>
                       undisturbed sys (set_order sys dn) (fs w1')"
      then obtain dn' where t2: "build_dir_names d sys ?c' (fs w1') = Inr dn'"
        and same: "set_order sys dn' = set_order sys dn"
        and u: "undisturbed sys (set_order sys dn) (fs w1')"
        by blast
      from remove_dirs_undisturbed [OF nodry u] obtain w2 where
        loop: "remove_dirs sys ?c' (set_order sys dn) w1' = Inr w2"
        and l: "log w2 = log w1' @ map removing_msg (set_order sys dn)"
        by blast
      from b2 t2 same loop have "run b d sys ?c' w = Inr w2"
        by (simp add: run_def)
      with l dry show "\<exists>w2. run b d sys ?c' w = Inr w2 \<and>
                      drop (length (log w1')) (log w2)
                        = drop (length (log w1)) (log (world_of (run b d sys c w)))"
        by simp
    qed
  qed
  from run_world_dry [OF assms] 2 3 show ?thesis by blast
qed

theorem dry_run_reports_without_removing_witness:
  "run idle_base project_registry (table_system project_environ) all_options project_world
     = Inr (project_world\<lparr>log := map removing_msg project_targets\<rparr>) \<and>
   (\<exists>w2. run idle_base project_registry (table_system project_environ)
            (all_options\<lparr>dry_run := False\<rparr>) project_world = Inr w2 \<and>
         log w2 = map removing_msg project_targets)"
proof -
  have dry: "dry_run all_options"
    by (simp add: all_options_def)
  have ex: "\<forall>p \<in> set project_targets.
      os_path_exists (table_system project_environ) (fs project_world) p"
    by code_simp
  have l: "log project_world = []"
    by (simp add: project_world_def)
  note T = dry_run_reports_without_removing [OF dry, of idle_base project_registry
      "table_system project_environ" project_world]
  note S = conjunct2 [OF T, rule_format, of project_world project_targets,
      OF conjI [OF idle_base_run project_all_targets], unfolded table_set_order]
  have r: "run idle_base project_registry (table_system project_environ) all_options project_world
       = Inr (project_world\<lparr>log := log project_world
            @ map (report (table_system project_environ) (fs project_world)) project_targets\<rparr>)"
    by (rule conjunct1 [OF S])
  from r have r': "run idle_base project_registry (table_system project_environ) all_options
      project_world = Inr (project_world\<lparr>log := map removing_msg project_targets\<rparr>)"
    by (simp add: l project_all_exist)
  note C = conjunct2 [OF S, rule_format, of project_world, OF conjI [OF ex idle_base_run]]
  have "\<exists>dn'. build_dir_names project_registry (table_system project_environ)
            (all_options\<lparr>dry_run := False\<rparr>) (fs project_world) = Inr dn' \<and>
          dn' = project_targets \<and>
          undisturbed (table_system project_environ) project_targets (fs project_world)"
    using project_all_targets_real project_undisturbed by simp
  with C obtain w2 where
    "run idle_base project_registry (table_system project_environ)
        (all_options\<lparr>dry_run := False\<rparr>) project_world = Inr w2"
    and "drop (length (log project_world)) (log w2)
      = drop (length (log project_world)) (log (world_of (run idle_base project_registry
                 (table_system project_environ) all_options project_world)))"
    by blast
  with r' show ?thesis by (simp add: world_of_def l)
qed

text \<open>
  The claim as it stands, that a dry run produces exactly the messages of a run that is
  not one, fails when a directory to remove lies inside another and the outer one is
  visited first: both exist, the dry run announces the removal of both, and the real run
  removes the outer one and then skips the inner one, which is gone by then.
\<close>

theorem dry_run_messages_differ:
  "table_exists nested_fs ''dist'' \<and> table_exists nested_fs ''dist/wheels'' \<and>
   run idle_base nested_registry (table_system Map.empty) (dist_options\<lparr>dry_run := True\<rparr>)
       \<lparr>fs = nested_fs, log = []\<rparr>
     = Inr \<lparr>fs = nested_fs, log = [removing_msg ''dist'', removing_msg ''dist/wheels'']\<rparr> \<and>
   run idle_base nested_registry (table_system Map.empty) dist_options
       \<lparr>fs = nested_fs, log = []\<rparr>
     = Inr \<lparr>fs = [(''.'', Some [''dist'', ''setup.py'']), (''setup.py'', None)],
            log = [removing_msg ''dist'', skipping_msg ''dist/wheels'']\<rparr> \<and>
   removing_msg ''dist/wheels'' \<noteq> skipping_msg ''dist/wheels'' \<and>
   \<not> undisturbed (table_system Map.empty) [''dist'', ''dist/wheels''] nested_fs"
  by code_simp

text \<open>
  C6. A directory that does not exist at its turn is skipped with an announcement, the
  file system is left alone and the loop goes on with the remaining directories. The
  loop raises only when deleting a directory that exists raises, never for an absent
  one. When the loop returns, every directory that was absent at the start has its skip
  announcement in the log, every directory has a removal notice or a skip announcement
  there, and, unless it is a dry run, none of the directories exists any more: the
  existing ones were removed. This holds for every list of directories and every world,
  given a sound deletion.
\<close>

theorem absent_target_skipped:
  assumes "sound_delete sys"
  shows "(\<not> os_path_exists sys (fs w) p \<longrightarrow>
            remove_dirs sys c (p # ds) w = remove_dirs sys c ds (announce (skipping_msg p) w)) \<and>
         (\<forall>e w'. remove_dirs sys c ds w = Inl (e, w') \<longrightarrow>
            \<not> dry_run c \<and>
            (\<exists>f q. q \<in> set ds \<and> os_path_exists sys f q \<and> snd (delete_tree sys f q) = Some e)) \<and>
         (\<forall>w'. remove_dirs sys c ds w = Inr w' \<longrightarrow>
            (\<forall>q \<in> set ds. \<not> os_path_exists sys (fs w) q \<longrightarrow> skipping_msg q \<in> set (log w')) \<and>
            (\<forall>q \<in> set ds. removing_msg q \<in> set (log w') \<or> skipping_msg q \<in> set (log w')) \<and>
            (\<not> dry_run c \<longrightarrow> (\<forall>q \<in> set ds. \<not> os_path_exists sys (fs w') q)))"
  using assms remove_dirs_raises [of sys c ds w] remove_dirs_skips [of sys c ds w]
    remove_dirs_all_gone [of sys c ds w] remove_dirs_reports_all [of sys c ds w]
  by simp

theorem absent_target_skipped_witness:
  "\<not> os_path_exists (table_system project_environ) (fs project_world) ''/tmp/gone'' \<and>
   remove_dirs (table_system project_environ) gone_options gone_targets project_world
     = Inr gone_world \<and>
   skipping_msg ''/tmp/gone'' \<in> set (log gone_world) \<and>
   \<not> os_path_exists (table_system project_environ) (fs gone_world) ''build/out'' \<and>
   \<not> os_path_exists (table_system project_environ) (fs gone_world) ''baz.egg''"
proof -
  note T = absent_target_skipped [OF table_sound_delete, of project_environ project_world
      "''/tmp/gone''" gone_options gone_targets]
  note S = conjunct2 [OF conjunct2 [OF T], rule_format, OF gone_run]
  have absent: "\<not> os_path_exists (table_system project_environ) (fs project_world) ''/tmp/gone''"
    by code_simp
  have nodry: "\<not> dry_run gone_options"
    by (simp add: gone_options_def)
  have m: "''/tmp/gone'' \<in> set gone_targets" "''build/out'' \<in> set gone_targets"
    "''baz.egg'' \<in> set gone_targets"
    by (simp_all add: gone_targets_def)
  from conjunct1 [OF S, rule_format, OF m(1) absent]
  have 1: "skipping_msg ''/tmp/gone'' \<in> set (log gone_world)" .
  from conjunct2 [OF conjunct2 [OF S], rule_format, OF nodry m(2)]
  have 2: "\<not> os_path_exists (table_system project_environ) (fs gone_world) ''build/out''" .
  from conjunct2 [OF conjunct2 [OF S], rule_format, OF nodry m(3)]
  have 3: "\<not> os_path_exists (table_system project_environ) (fs gone_world) ''baz.egg''" .
  from absent gone_run 1 2 3 show ?thesis by blast
qed

text \<open>
  C8. The set of directories is exactly what the three steps contribute, and it holds
  every contributed path exactly once, however many of the steps contributed it; the
  loop visits each of them exactly once; so the loop logs at most one message, a removal
  notice or a skip announcement, about any path, and exactly one about each contributed
  path when it returns.
\<close>

theorem duplicates_collapse:
  assumes "build_dir_names d sys c f = Inr dn" and "iteration_order (set_order sys)"
  shows "set dn = contributed d sys c f \<and>
         (\<forall>p \<in> contributed d sys c f.
            count_list dn p = 1 \<and> count_list (set_order sys dn) p = 1) \<and>
         distinct dn \<and> distinct (set_order sys dn) \<and> set (set_order sys dn) = set dn \<and>
         (\<forall>p. count_list (drop (length (log w))
                   (log (world_of (remove_dirs sys c (set_order sys dn) w)))) (removing_msg p)
             + count_list (drop (length (log w))
                   (log (world_of (remove_dirs sys c (set_order sys dn) w)))) (skipping_msg p)
             \<le> 1) \<and>
         (\<forall>w'. remove_dirs sys c (set_order sys dn) w = Inr w' \<longrightarrow>
            (\<forall>p \<in> contributed d sys c f.
               count_list (drop (length (log w)) (log w')) (removing_msg p)
               + count_list (drop (length (log w)) (log w')) (skipping_msg p) = 1))"
proof -
  have s: "set dn = contributed d sys c f"
    using assms(1) by (rule build_dir_names_set)
  have dn: "distinct dn"
    using assms(1) by (rule build_dir_names_distinct)
  with assms(2) have ord: "distinct (set_order sys dn)" "set (set_order sys dn) = set dn"
    by (simp_all add: iteration_order_def)
  have once: "count_list dn p = 1 \<and> count_list (set_order sys dn) p = 1"
    if "p \<in> contributed d sys c f" for p
    using that s dn ord by (simp add: distinct_count_list_1)
  obtain ms where l: "log (world_of (remove_dirs sys c (set_order sys dn) w)) = log w @ ms"
    and n: "\<forall>p. count_list ms (removing_msg p) + count_list ms (skipping_msg p)
              \<le> count_list (set_order sys dn) p"
    using remove_dirs_log by blast
  have "count_list ms (removing_msg p) + count_list ms (skipping_msg p) \<le> 1" for p
    using n [rule_format, of p] distinct_count_list [OF ord(1), of p] by simp
  with l have atmost: "count_list (drop (length (log w))
                   (log (world_of (remove_dirs sys c (set_order sys dn) w)))) (removing_msg p)
             + count_list (drop (length (log w))
                   (log (world_of (remove_dirs sys c (set_order sys dn) w)))) (skipping_msg p)
             \<le> 1" for p
    by simp
  have exact: "count_list (drop (length (log w)) (log w')) (removing_msg p)
               + count_list (drop (length (log w)) (log w')) (skipping_msg p) = 1"
    if r: "remove_dirs sys c (set_order sys dn) w = Inr w'" and p: "p \<in> contributed d sys c f"
    for w' p
  proof -
    from remove_dirs_log_exact [OF r] obtain ms' where "log w' = log w @ ms'"
      and "\<forall>p. count_list ms' (removing_msg p) + count_list ms' (skipping_msg p)
              = count_list (set_order sys dn) p"
      by blast
    with once [OF p] show ?thesis by simp
  qed
  from s once dn ord atmost exact show ?thesis by blast
qed

theorem duplicates_collapse_witness:
  "dist dup_options \<and> environment dup_options \<and>
   ''build/out'' \<in> spec_dist_dirs project_registry \<and>
   ''build/out'' \<in> spec_environment_dirs dup_options \<and>
   build_dir_names project_registry (table_system project_environ) dup_options project_fs
     = Inr dup_targets \<and>
   count_list dup_targets ''build/out'' = 1 \<and>
   remove_dirs (table_system project_environ) dup_options dup_targets project_world
     = Inr dup_world \<and>
   count_list (log dup_world) (removing_msg ''build/out'')
     + count_list (log dup_world) (skipping_msg ''build/out'') = 1"
proof -
  have flags: "dist dup_options" "environment dup_options"
    by (simp_all add: dup_options_def)
  have e: "''build/out'' \<in> spec_environment_dirs dup_options"
    by (simp add: spec_environment_dirs_def dup_options_def)
  have s: "''build/out'' \<in> spec_dist_dirs project_registry"
    by (simp add: project_spec_dist_dirs)
  from flags s have m: "''build/out'' \<in> contributed project_registry
      (table_system project_environ) dup_options project_fs"
    by (simp add: contributed_def)
  have l: "length (log project_world) = 0"
    by (simp add: project_world_def)
  note T = duplicates_collapse [OF dup_build table_iteration_order, of project_world,
      unfolded table_set_order]
  from T [THEN conjunct2, THEN conjunct1, rule_format, OF m]
  have 1: "count_list dup_targets ''build/out'' = 1" by (rule conjunct1)
  from T [THEN conjunct2, THEN conjunct2, THEN conjunct2, THEN conjunct2, THEN conjunct2,
      THEN conjunct2, rule_format, OF dup_run m]
  have 2: "count_list (log dup_world) (removing_msg ''build/out'')
     + count_list (log dup_world) (skipping_msg ''build/out'') = 1"
    unfolding l by simp
  from flags s e dup_build 1 dup_run 2 show ?thesis by simp
qed

end
